theory Spec2Isabelle
  imports Complex_Main
begin

section \<open>Conventions of the model\<close>

text \<open>
  The metronome is a browser program. Its core is the look-ahead scheduler
  (\<^verbatim>\<open>modules/audio/scheduler.js\<close>), the module that wraps it
  (\<^verbatim>\<open>modules/core/metronome.js\<close>, in two generations: a set of module-level
  functions and a later \<^verbatim>\<open>Metronome\<close> class), the state store
  (\<^verbatim>\<open>modules/utils/state.js\<close>), the configuration (\<^verbatim>\<open>modules/utils/config.js\<close>)
  and the sound emitter (\<^verbatim>\<open>modules/audio/soundBuffers.js\<close>).

  \<^item> JavaScript numbers that the scheduler and the sound emitters compute with
    (audio-clock seconds, intervals, gains) are idealised as \<^typ>\<open>real\<close>, without the
    rounding of doubles. The tempo setter \<^verbatim>\<open>setBPM\<close> is the exception: it compares a
    difference of two tempos with 0.1, and there the rounding decides the outcome, so its
    arithmetic is modelled in IEEE doubles (function \<open>fl\<close> below).
    Counters are \<^typ>\<open>nat\<close>, \<^verbatim>\<open>Date.now()\<close> is a \<^typ>\<open>nat\<close> of milliseconds.
  \<^item> At the public setters, where the input is whatever the caller passes, a number
    may also be \<^verbatim>\<open>NaN\<close> or infinite, and the argument may not be a number at all;
    this is the type \<open>jsval\<close> below.
  \<^item> Every function runs to completion on the single event-loop thread. Within one
    call the wall clock and \<^verbatim>\<open>audioContext.currentTime\<close> do not move; between calls
    the environment moves them.
  \<^item> Host timers are kept in the state: \<^verbatim>\<open>setTimeout\<close> appends a pending timer,
    \<^verbatim>\<open>clearTimeout\<close> removes it. What the program asks of the outside (a callback
    invocation, \<^verbatim>\<open>audioContext.resume()\<close>, an error handed to the error manager,
    a \<^verbatim>\<open>CustomEvent\<close>) is appended to a trace. \<^verbatim>\<open>console\<close> output is not recorded.
  \<^item> \<^verbatim>\<open>handleAudioError(error)\<close> and \<^verbatim>\<open>handleConfigError(error)\<close> first build the
    argument of \<^verbatim>\<open>errorManager.handleError\<close>, from \<^verbatim>\<open>error.message\<close> and, when \<^verbatim>\<open>error\<close>
    is no object, \<^verbatim>\<open>new Error(error)\<close>; \<^verbatim>\<open>handleError\<close> then logs, catches everything it
    does and returns. Building the argument throws a \<^verbatim>\<open>TypeError\<close>, before anything is
    logged, when \<^verbatim>\<open>error\<close> is \<^verbatim>\<open>null\<close> or \<^verbatim>\<open>undefined\<close> (no \<^verbatim>\<open>message\<close> to read) or a
    symbol (no conversion to a string). The only place where the value handed over is
    not an error object made by the program or thrown by the runtime is the \<^verbatim>\<open>catch\<close>
    around the beat callback; everywhere else the handlers log and return.
\<close>

section \<open>The host: clock, timers, trace\<close>

datatype timer_kind = LoopTimer | RecoveryTimer | UnlockTimer

record timer =
  t_id :: nat
  t_kind :: timer_kind
  t_due :: real

datatype app_event =
    Started | StartFailed | Stopped | BpmChanged | TimeSignatureChanged

datatype trace_item =
    Beat real nat real
  | Resume
  | NewContext
  | ErrLog
  | Emit app_event

text \<open>
  \<open>Beat t b bpm\<close> records one invocation \<^verbatim>\<open>schedulerCallback(t, b)\<close>; the third
  component is a ghost, the tempo that the tick read from the state store, and is not
  passed to the callback.
\<close>

record host =
  now :: nat
  next_id :: nat
  timers :: "timer list"
  trace :: "trace_item list"

definition setTimeout :: "timer_kind \<Rightarrow> real \<Rightarrow> 'a host_scheme \<Rightarrow> nat \<times> 'a host_scheme" where
  "setTimeout k delay h =
     (next_id h,
      h\<lparr>next_id := Suc (next_id h),
        timers := timers h @ [\<lparr>t_id = next_id h, t_kind = k, t_due = real (now h) + delay\<rparr>]\<rparr>)"

definition clearTimeout :: "nat \<Rightarrow> 'a host_scheme \<Rightarrow> 'a host_scheme" where
  "clearTimeout i h = h\<lparr>timers := filter (\<lambda>t. t_id t \<noteq> i) (timers h)\<rparr>"

definition emit :: "trace_item \<Rightarrow> 'a host_scheme \<Rightarrow> 'a host_scheme" where
  "emit x h = h\<lparr>trace := trace h @ [x]\<rparr>"

text \<open>A timer handle is an integer; \<^verbatim>\<open>if (handle)\<close> is false for \<^verbatim>\<open>null\<close> and for 0.\<close>

fun truthy :: "nat option \<Rightarrow> bool" where
  "truthy None = False"
| "truthy (Some i) = (i \<noteq> 0)"

text \<open>
  The pending timer with handle \<open>i\<close>, if its delay has elapsed. The host runs the
  callback of no other timer: not of one cleared or already run, and not of one set less
  than its delay ago.
\<close>

definition due_timer :: "nat \<Rightarrow> 'a host_scheme \<Rightarrow> timer option" where
  "due_timer i h =
     (case find (\<lambda>t. t_id t = i) (timers h) of
        None \<Rightarrow> None
      | Some t \<Rightarrow> if t_due t \<le> real (now h) then Some t else None)"

section \<open>The scheduler object\<close>

datatype ctx_state = Running | Suspended | Closed

record audio_ctx =
  state :: ctx_state
  currentTime :: real

record perf =
  beatsScheduled :: nat
  successfulBeats :: nat
  failedBeats :: nat
  averageLatency :: real
  totalLatency :: real
  startTime :: "nat option"

definition perf0 :: perf where
  "perf0 = \<lparr>beatsScheduled = 0, successfulBeats = 0, failedBeats = 0,
            averageLatency = 0, totalLatency = 0, startTime = None\<rparr>"

text \<open>
  A callback is opaque to the scheduler. The model keeps what the scheduler can
  observe of it, as a function of the number of beats scheduled before it and of its two
  arguments: the invocation returns, or it throws a value that \<^verbatim>\<open>handleAudioError\<close>
  logs (\<open>Throws\<close>: an \<^verbatim>\<open>Error\<close>, a string, any object with a readable \<^verbatim>\<open>message\<close>), or
  it throws a value on which \<^verbatim>\<open>handleAudioError\<close> itself throws (\<open>ThrowsUnloggable\<close>:
  \<^verbatim>\<open>null\<close>, \<^verbatim>\<open>undefined\<close>, a symbol). The callback is assumed not to call back into the
  scheduler.
\<close>

datatype outcome = Returns | Throws | ThrowsUnloggable

type_synonym callback = "nat \<Rightarrow> real \<Rightarrow> nat \<Rightarrow> outcome"

record scheduler = host +
  audioContext :: "audio_ctx option"
  isRunning :: bool
  currentBeat :: nat
  nextBeatTime :: real
  schedulerCallback :: "callback option"
  lastUpdateTime :: nat
  timerID :: "nat option"
  errorCount :: nat
  recoveryTimeout :: "nat option"
  performanceStats :: perf

definition scheduleAheadTime :: real where "scheduleAheadTime = 0.2"
definition minScheduleInterval :: real where "minScheduleInterval = 1"
definition maxScheduleInterval :: real where "maxScheduleInterval = 100"
definition maxAllowedErrors :: nat where "maxAllowedErrors = 3"
definition maxSchedulesPerIteration :: nat where "maxSchedulesPerIteration = 20"

text \<open>\<^verbatim>\<open>scheduler.stop()\<close>; it returns nothing.\<close>

definition stop :: "'a scheduler_scheme \<Rightarrow> 'a scheduler_scheme" where
  "stop s =
     (let s1 = s\<lparr>isRunning := False\<rparr>;
          s2 = (case timerID s1 of None \<Rightarrow> s1
                | Some i \<Rightarrow> (clearTimeout i s1)\<lparr>timerID := None\<rparr>);
          s3 = (case recoveryTimeout s2 of None \<Rightarrow> s2
                | Some i \<Rightarrow> (clearTimeout i s2)\<lparr>recoveryTimeout := None\<rparr>)
      in s3\<lparr>schedulerCallback := None, currentBeat := 1, errorCount := 0\<rparr>)"

text \<open>\<^verbatim>\<open>scheduler.attemptRecovery()\<close>: arm the recovery timer unless one is pending.\<close>

definition attemptRecovery :: "'a scheduler_scheme \<Rightarrow> 'a scheduler_scheme" where
  "attemptRecovery s =
     (if truthy (recoveryTimeout s) then s
      else (case setTimeout RecoveryTimer 1000 s of
              (i, s1) \<Rightarrow> s1\<lparr>recoveryTimeout := Some i\<rparr>))"

text \<open>
  \<^verbatim>\<open>scheduler.init()\<close>. \<open>fresh\<close> is what \<^verbatim>\<open>new AudioContext(...)\<close> yields: \<open>None\<close> when
  the constructor throws. The result is \<open>Inl\<close> when \<^verbatim>\<open>init\<close> throws.
\<close>

definition init :: "audio_ctx option \<Rightarrow> 'a scheduler_scheme \<Rightarrow> 'a scheduler_scheme + 'a scheduler_scheme" where
  "init fresh s =
     (if audioContext s \<noteq> None then Inr s
      else let s1 = s\<lparr>performanceStats := perf0\<rparr> in
        (case fresh of
           None \<Rightarrow> Inl (emit ErrLog s1)
         | Some c \<Rightarrow>
             let s2 = emit NewContext (s1\<lparr>audioContext := Some c\<rparr>)
             in Inr (if state c = Suspended then emit Resume s2 else s2)))"

text \<open>\<^verbatim>\<open>scheduler.reset()\<close>, which the context's \<^verbatim>\<open>onstatechange\<close> handler calls on close.\<close>

definition reset :: "'a scheduler_scheme \<Rightarrow> 'a scheduler_scheme" where
  "reset s = (stop s)\<lparr>audioContext := None, nextBeatTime := 0, lastUpdateTime := 0,
                      performanceStats := perf0\<rparr>"

text \<open>
  The body of the recovery timer's callback:
  \<^verbatim>\<open>try { errorCount = 0; if (!ctx || ctx.state === 'closed') await init(); }
     catch (e) { handleAudioError(e) } finally { recoveryTimeout = null }\<close>
\<close>

definition recoveryCallback :: "audio_ctx option \<Rightarrow> 'a scheduler_scheme \<Rightarrow> 'a scheduler_scheme" where
  "recoveryCallback fresh s =
     (let s1 = s\<lparr>errorCount := 0\<rparr>;
          closed = (case audioContext s1 of None \<Rightarrow> True | Some c \<Rightarrow> state c = Closed);
          s2 = (if closed then (case init fresh s1 of Inl e \<Rightarrow> emit ErrLog e | Inr s' \<Rightarrow> s')
                else s1)
      in s2\<lparr>recoveryTimeout := None\<rparr>)"

text \<open>\<^verbatim>\<open>scheduler.updateInterval()\<close>: re-anchor the next beat 150 ms ahead of the audio clock.\<close>

definition updateInterval :: "'a scheduler_scheme \<Rightarrow> bool \<times> 'a scheduler_scheme" where
  "updateInterval s =
     (case audioContext s of
        None \<Rightarrow> (False, emit ErrLog s)
      | Some c \<Rightarrow> (True, s\<lparr>nextBeatTime := currentTime c + 0.15\<rparr>))"

subsection \<open>One beat of the tick loop\<close>

text \<open>
  The body of the \<^verbatim>\<open>while\<close> loop of \<^verbatim>\<open>schedulerLoop\<close>, for the tempo \<open>bpm\<close> and the
  numerator \<open>beatNumerator\<close> that \<^verbatim>\<open>getState()\<close> returned to this tick, and the
  audio-clock reading \<open>ct\<close>. Both are finite numbers here, \<open>bpm\<close> nonzero and the
  numerator a positive integer, as the setters' range checks leave them; the model
  says nothing about a tick that reads \<^verbatim>\<open>NaN\<close>. The Boolean result is \<open>True\<close> when the
  body ends the tick: by \<^verbatim>\<open>return\<close>, or by an exception that the outer \<^verbatim>\<open>catch\<close> of
  \<^verbatim>\<open>schedulerLoop\<close> absorbs.
\<close>

definition beatSucceeded :: "real \<Rightarrow> nat \<Rightarrow> 'a scheduler_scheme \<Rightarrow> 'a scheduler_scheme" where
  "beatSucceeded bpm beatNumerator s =
     (let p = performanceStats s;
          p1 = p\<lparr>successfulBeats := Suc (successfulBeats p)\<rparr>;
          p2 = p1\<lparr>averageLatency := totalLatency p1 / real (successfulBeats p1)\<rparr>
      in s\<lparr>performanceStats := p2,
           nextBeatTime := nextBeatTime s + 60 / bpm,
           currentBeat := currentBeat s mod beatNumerator + 1,
           errorCount := 0\<rparr>)"

text \<open>
  The \<^verbatim>\<open>catch\<close> of the outer \<^verbatim>\<open>try\<close> of \<^verbatim>\<open>schedulerLoop\<close>:
  \<^verbatim>\<open>handleAudioError(error, ...); this.stop();\<close>. What reaches it from the loop is the
  \<^verbatim>\<open>TypeError\<close> that \<^verbatim>\<open>handleAudioError\<close> throws on a value it cannot log.
\<close>

definition outerCatch :: "'a scheduler_scheme \<Rightarrow> 'a scheduler_scheme" where
  "outerCatch s = stop (emit ErrLog s)"

text \<open>
  The \<^verbatim>\<open>catch\<close> around the callback. \<open>unloggable\<close> tells whether the value caught
  is one on which \<^verbatim>\<open>handleAudioError\<close> throws: then it does so right after
  \<^verbatim>\<open>this.errorCount++\<close>, and the outer \<^verbatim>\<open>catch\<close> ends the tick.
\<close>

definition beatFailed :: "bool \<Rightarrow> real \<Rightarrow> nat \<Rightarrow> 'a scheduler_scheme \<Rightarrow> bool \<times> 'a scheduler_scheme" where
  "beatFailed unloggable bpm beatNumerator s =
     (let s0 = s\<lparr>errorCount := Suc (errorCount s)\<rparr> in
      if unloggable then (True, outerCatch s0)
      else
        let s1 = emit ErrLog s0
        in if errorCount s1 \<ge> maxAllowedErrors then (True, attemptRecovery (stop s1))
           else (False,
                 s1\<lparr>performanceStats :=
                       (performanceStats s1)\<lparr>failedBeats := Suc (failedBeats (performanceStats s1))\<rparr>,
                    nextBeatTime := nextBeatTime s1 + 60 / bpm,
                    currentBeat := currentBeat s1 mod beatNumerator + 1\<rparr>))"

definition dispatchBeat :: "real \<Rightarrow> real \<Rightarrow> nat \<Rightarrow> 'a scheduler_scheme \<Rightarrow> bool \<times> 'a scheduler_scheme" where
  "dispatchBeat ct bpm beatNumerator s =
     (let p = performanceStats s;
          s1 = s\<lparr>performanceStats :=
                   p\<lparr>beatsScheduled := Suc (beatsScheduled p),
                     totalLatency := totalLatency p + \<bar>nextBeatTime s - ct\<bar>\<rparr>\<rparr>
      in case schedulerCallback s1 of
           None \<Rightarrow> (False, beatSucceeded bpm beatNumerator s1)
         | Some cb \<Rightarrow>
             let s2 = emit (Beat (nextBeatTime s1) (currentBeat s1) bpm) s1
             in (case cb (beatsScheduled p) (nextBeatTime s1) (currentBeat s1) of
                   Returns \<Rightarrow> (False, beatSucceeded bpm beatNumerator s2)
                 | Throws \<Rightarrow> beatFailed False bpm beatNumerator s2
                 | ThrowsUnloggable \<Rightarrow> beatFailed True bpm beatNumerator s2))"

text \<open>
  The \<^verbatim>\<open>while\<close> loop itself. The first argument is the number of beats this tick may
  still schedule (\<^verbatim>\<open>maxSchedulesPerIteration - scheduleCount\<close>).
\<close>

fun beatLoop :: "nat \<Rightarrow> real \<Rightarrow> real \<Rightarrow> nat \<Rightarrow> 'a scheduler_scheme \<Rightarrow> bool \<times> 'a scheduler_scheme" where
  "beatLoop 0 ct bpm beatNumerator s = (False, s)"
| "beatLoop (Suc k) ct bpm beatNumerator s =
     (if nextBeatTime s < ct + scheduleAheadTime
      then (case dispatchBeat ct bpm beatNumerator s of
              (True, s') \<Rightarrow> (True, s')
            | (False, s') \<Rightarrow> beatLoop k ct bpm beatNumerator s')
      else (False, s))"

subsection \<open>The tick\<close>

definition rearm :: "real \<Rightarrow> 'a scheduler_scheme \<Rightarrow> 'a scheduler_scheme" where
  "rearm delay s = (case setTimeout LoopTimer delay s of (i, s1) \<Rightarrow> s1\<lparr>timerID := Some i\<rparr>)"

text \<open>\<^verbatim>\<open>this.lastUpdateTime && (Date.now() - this.lastUpdateTime < this.minScheduleInterval)\<close>\<close>

definition throttled :: "'a scheduler_scheme \<Rightarrow> bool" where
  "throttled s =
     (lastUpdateTime s \<noteq> 0 \<and>
      real_of_int (int (now s) - int (lastUpdateTime s)) < minScheduleInterval)"

definition schedulerLoop :: "real \<Rightarrow> nat \<Rightarrow> 'a scheduler_scheme \<Rightarrow> 'a scheduler_scheme" where
  "schedulerLoop bpm beatNumerator s =
     (if \<not> isRunning s then s
      else if throttled s then rearm minScheduleInterval s
      else
        let s1 = s\<lparr>lastUpdateTime := now s\<rparr> in
        (case audioContext s1 of
           None \<Rightarrow> stop (emit ErrLog s1)
         | Some c \<Rightarrow>
             if state c = Closed then stop (emit ErrLog s1)
             else if state c = Suspended then rearm 50 (emit Resume s1)
             else
               (case beatLoop maxSchedulesPerIteration (currentTime c) bpm beatNumerator s1 of
                  (True, s2) \<Rightarrow> s2
                | (False, s2) \<Rightarrow>
                    let timeUntilNextSchedule =
                          (nextBeatTime s2 - currentTime c - scheduleAheadTime) * 1000;
                        scheduleTime =
                          (if timeUntilNextSchedule \<le> 0 then 0
                           else max minScheduleInterval
                                  (min timeUntilNextSchedule maxScheduleInterval))
                    in if isRunning s2 then rearm scheduleTime s2 else s2)))"

text \<open>
  The host runs the callback of timer \<open>i\<close>, which then is no longer pending: the tick
  for a loop timer (with what \<^verbatim>\<open>getState()\<close> returns to it), the recovery body for a
  recovery timer (with what \<^verbatim>\<open>new AudioContext\<close> would yield). Nothing happens when
  that timer is not due.
\<close>

definition fire :: "nat \<Rightarrow> audio_ctx option \<Rightarrow> real \<Rightarrow> nat \<Rightarrow> 'a scheduler_scheme \<Rightarrow> 'a scheduler_scheme" where
  "fire i fresh bpm beatNumerator s =
     (case due_timer i s of
        None \<Rightarrow> s
      | Some t \<Rightarrow>
          (case t_kind t of
             LoopTimer \<Rightarrow> schedulerLoop bpm beatNumerator (clearTimeout i s)
           | RecoveryTimer \<Rightarrow> recoveryCallback fresh (clearTimeout i s)
           | UnlockTimer \<Rightarrow> s))"

text \<open>
  \<^verbatim>\<open>scheduler.start(callback)\<close>. \<open>None\<close> stands for an argument that is not a function.
  \<^verbatim>\<open>start\<close> reads \<^verbatim>\<open>Date.now()\<close> and then calls \<^verbatim>\<open>schedulerLoop\<close>, which reads it
  again; \<open>late\<close> is the number of milliseconds the wall clock moved in between.
\<close>

definition start :: "callback option \<Rightarrow> nat \<Rightarrow> real \<Rightarrow> nat \<Rightarrow> 'a scheduler_scheme \<Rightarrow> bool \<times> 'a scheduler_scheme" where
  "start callback late bpm beatNumerator s =
     (case audioContext s of
        None \<Rightarrow> (False, emit ErrLog s)
      | Some c \<Rightarrow>
          if isRunning s then (True, s)
          else (case callback of
                  None \<Rightarrow> (False, emit ErrLog s)
                | Some cb \<Rightarrow>
                    let s1 = s\<lparr>schedulerCallback := Some cb, isRunning := True,
                               currentBeat := 1, errorCount := 0,
                               performanceStats := (performanceStats s)\<lparr>startTime := Some (now s)\<rparr>,
                               nextBeatTime := currentTime c + 0.2,
                               lastUpdateTime := now s\<rparr>
                    in (True, schedulerLoop bpm beatNumerator (s1\<lparr>now := now s1 + late\<rparr>))))"


subsection \<open>The scheduler as first loaded, and runs of the scheduler\<close>

text \<open>The object literal of \<^verbatim>\<open>scheduler.js\<close>, on a host whose wall clock reads \<open>t\<close>.\<close>

definition scheduler0 :: "nat \<Rightarrow> scheduler" where
  "scheduler0 t =
     \<lparr>now = t, next_id = 1, timers = [], trace = [],
      audioContext = None, isRunning = False, currentBeat = 1, nextBeatTime = 0,
      schedulerCallback = None, lastUpdateTime = 0, timerID = None, errorCount = 0,
      recoveryTimeout = None, performanceStats = perf0\<rparr>"

text \<open>
  What can happen to a scheduler between two calls of \<^verbatim>\<open>start\<close>: the loop timer fires
  (\<open>Tick\<close>, with the tempo and numerator that \<^verbatim>\<open>getState()\<close> returns to that tick),
  the wall clock or the audio clock moves, the audio context changes state
  (\<open>CtxState\<close>), the \<^verbatim>\<open>statechange\<close> event that the host queues after a change of state
  is delivered (\<open>StateChange\<close>: the \<^verbatim>\<open>onstatechange\<close> handler installed by \<^verbatim>\<open>init\<close>
  resets the scheduler when it finds the context closed), or a setter calls
  \<^verbatim>\<open>updateInterval\<close> (\<open>Realign\<close>). A tick may come at any time; the timer queue is not
  consulted, so every real schedule of ticks is among the runs.
\<close>

datatype event =
  Tick real nat | Elapse nat | AudioClock real | CtxState ctx_state | StateChange | Realign

fun step :: "event \<Rightarrow> 'a scheduler_scheme \<Rightarrow> 'a scheduler_scheme" where
  "step (Tick bpm beatNumerator) s = schedulerLoop bpm beatNumerator s"
| "step (Elapse d) s = s\<lparr>now := now s + d\<rparr>"
| "step (AudioClock t) s =
     (case audioContext s of None \<Rightarrow> s
      | Some c \<Rightarrow> s\<lparr>audioContext := Some (c\<lparr>currentTime := t\<rparr>)\<rparr>)"
| "step (CtxState st) s =
     (case audioContext s of None \<Rightarrow> s
      | Some c \<Rightarrow> s\<lparr>audioContext := Some (c\<lparr>state := st\<rparr>)\<rparr>)"
| "step StateChange s =
     (case audioContext s of None \<Rightarrow> s
      | Some c \<Rightarrow> if state c = Closed then reset s else s)"
| "step Realign s = snd (updateInterval s)"

fun run :: "event list \<Rightarrow> 'a scheduler_scheme \<Rightarrow> 'a scheduler_scheme" where
  "run [] s = s"
| "run (e # es) s = run es (step e s)"

text \<open>The callback invocations of a trace, in order: time, beat number, ghost tempo.\<close>

fun beats :: "trace_item list \<Rightarrow> (real \<times> nat \<times> real) list" where
  "beats [] = []"
| "beats (Beat t b bpm # xs) = (t, b, bpm) # beats xs"
| "beats (_ # xs) = beats xs"

text \<open>
  A grid: each timestamp is the one before plus 60 over the tempo read by the tick that
  dispatched the one before, and is strictly later.
\<close>

fun grid :: "(real \<times> nat \<times> real) list \<Rightarrow> bool" where
  "grid [] = True"
| "grid [x] = True"
| "grid ((t, b, bpm) # (t', b', bpm') # xs) =
     (t' = t + 60 / bpm \<and> t < t' \<and> grid ((t', b', bpm') # xs))"

definition tempo_ok :: "event \<Rightarrow> bool" where
  "tempo_ok e = (case e of Tick bpm n \<Rightarrow> 0 < bpm | _ \<Rightarrow> True)"

definition numerator_is :: "nat \<Rightarrow> event \<Rightarrow> bool" where
  "numerator_is N e = (case e of Tick bpm n \<Rightarrow> n = N | _ \<Rightarrow> True)"

definition no_realign :: "event \<Rightarrow> bool" where
  "no_realign e = (e \<noteq> Realign)"

text \<open>The beats dispatched on the way from \<open>s\<close> to a later \<open>s'\<close>.\<close>

definition dispatched :: "'a scheduler_scheme \<Rightarrow> 'a scheduler_scheme \<Rightarrow> (real \<times> nat \<times> real) list" where
  "dispatched s s' = drop (length (beats (trace s))) (beats (trace s'))"

text \<open>
  Two invariants of a run, relative to the beats \<open>B\<close> that were in the trace when the
  run began. The beats \<open>ys\<close> dispatched since then count 1, 2, ..., N, 1, ... and a
  running scheduler holds the number of the next one; they form a grid, and a running
  scheduler holds the time of the next grid point.
\<close>

definition cyc_inv :: "nat \<Rightarrow> (real \<times> nat \<times> real) list \<Rightarrow> 'a scheduler_scheme \<Rightarrow> bool" where
  "cyc_inv N B s =
     (\<exists>ys. beats (trace s) = B @ ys \<and>
           map (fst \<circ> snd) ys = map (\<lambda>k. k mod N + 1) [0..<length ys] \<and>
           (isRunning s \<longrightarrow>
              schedulerCallback s \<noteq> None \<and> currentBeat s = length ys mod N + 1))"

definition grid_inv :: "(real \<times> nat \<times> real) list \<Rightarrow> 'a scheduler_scheme \<Rightarrow> bool" where
  "grid_inv B s =
     (\<exists>ys. beats (trace s) = B @ ys \<and> grid ys \<and> list_all (\<lambda>x. 0 < snd (snd x)) ys \<and>
           (isRunning s \<longrightarrow>
              schedulerCallback s \<noteq> None \<and>
              (ys \<noteq> [] \<longrightarrow> nextBeatTime s = fst (last ys) + 60 / snd (snd (last ys)))))"

section \<open>Numbers at the public boundary\<close>

datatype jsnum = Fin real | NaN | PosInf | NegInf

datatype jsval = Num jsnum | NonNumber

text \<open>\<^verbatim>\<open>a < b\<close> and \<^verbatim>\<open>a > b\<close> on numbers: false as soon as one side is \<^verbatim>\<open>NaN\<close>.\<close>

fun js_lt :: "jsnum \<Rightarrow> jsnum \<Rightarrow> bool" where
  "js_lt (Fin a) (Fin b) = (a < b)"
| "js_lt (Fin a) PosInf = True"
| "js_lt NegInf (Fin b) = True"
| "js_lt NegInf PosInf = True"
| "js_lt _ _ = False"

definition js_gt :: "jsnum \<Rightarrow> jsnum \<Rightarrow> bool" where
  "js_gt a b = js_lt b a"

subsection \<open>Double arithmetic\<close>

text \<open>
  A JavaScript number is an IEEE 754 binary64 value. Every arithmetic operation yields
  the exact result rounded to the nearest double, ties going to the even significand;
  a result beyond the largest double becomes an infinity. \<open>quantum a\<close> is the spacing of
  the doubles around the magnitude \<open>a\<close>: the power of two \<open>q\<close> with
  \<open>2^52 * q \<le> a < 2^53 * q\<close>, found by halving or doubling from 1, and no smaller than
  \<open>2^-1074\<close>, the spacing of the subnormal numbers. Zero carries no sign here.
\<close>

fun quantum_down :: "nat \<Rightarrow> real \<Rightarrow> real \<Rightarrow> real" where
  "quantum_down 0 q a = q"
| "quantum_down (Suc k) q a = (if a < 2 ^ 52 * q then quantum_down k (q / 2) a else q)"

fun quantum_up :: "nat \<Rightarrow> real \<Rightarrow> real \<Rightarrow> real" where
  "quantum_up 0 q a = q"
| "quantum_up (Suc k) q a = (if 2 ^ 53 * q \<le> a then quantum_up k (2 * q) a else q)"

definition quantum :: "real \<Rightarrow> real" where
  "quantum a = (if a < 2 ^ 52 then quantum_down 1074 1 a else quantum_up 971 1 a)"

text \<open>The integer nearest to \<open>y\<close>, the even one of two that are equally near.\<close>

definition round_even :: "real \<Rightarrow> int" where
  "round_even y =
     (let n = \<lfloor>y\<rfloor>; f = y - of_int n
      in if f < 1 / 2 then n else if 1 / 2 < f then n + 1 else if even n then n else n + 1)"

definition rnd :: "real \<Rightarrow> real" where
  "rnd r = (if r = 0 then 0 else quantum \<bar>r\<bar> * of_int (round_even (r / quantum \<bar>r\<bar>)))"

definition max_double :: real where
  "max_double = (2 ^ 53 - 1) * 2 ^ 971"

text \<open>The double that an operation with exact result \<open>r\<close> yields.\<close>

definition fl :: "real \<Rightarrow> jsnum" where
  "fl r = (if max_double < rnd r then PosInf
           else if rnd r < - max_double then NegInf
           else Fin (rnd r))"

text \<open>
  A number of the program is a double, infinite, or \<^verbatim>\<open>NaN\<close>. Where a real enters the
  double arithmetic from outside (an argument, a stored value, a configuration entry) it
  is read as the double nearest to it, which is the number itself when it is a double.
  So a decimal numeral of the model stands for the JavaScript literal of the same
  spelling.
\<close>

definition is_double :: "real \<Rightarrow> bool" where
  "is_double r = (fl r = Fin r)"

fun as_double :: "jsnum \<Rightarrow> jsnum" where
  "as_double (Fin r) = fl r"
| "as_double x = x"

text \<open>\<^verbatim>\<open>a - b\<close>, \<^verbatim>\<open>Math.abs(a)\<close>.\<close>

fun js_sub :: "jsnum \<Rightarrow> jsnum \<Rightarrow> jsnum" where
  "js_sub (Fin a) (Fin b) = fl (a - b)"
| "js_sub NaN _ = NaN"
| "js_sub _ NaN = NaN"
| "js_sub PosInf PosInf = NaN"
| "js_sub NegInf NegInf = NaN"
| "js_sub PosInf _ = PosInf"
| "js_sub NegInf _ = NegInf"
| "js_sub (Fin a) PosInf = NegInf"
| "js_sub (Fin a) NegInf = PosInf"

fun js_abs :: "jsnum \<Rightarrow> jsnum" where
  "js_abs (Fin a) = Fin \<bar>a\<bar>"
| "js_abs NaN = NaN"
| "js_abs _ = PosInf"

text \<open>
  \<^verbatim>\<open>Math.round(x * 10) / 10\<close>: the product is rounded to a double, \<^verbatim>\<open>Math.round\<close>
  gives the nearest integer exactly (halves go up), and the quotient is rounded to a
  double again.
\<close>

fun js_round :: "jsnum \<Rightarrow> jsnum" where
  "js_round (Fin y) = Fin (of_int \<lfloor>y + 1 / 2\<rfloor>)"
| "js_round x = x"

fun js_div10 :: "jsnum \<Rightarrow> jsnum" where
  "js_div10 (Fin k) = fl (k / 10)"
| "js_div10 x = x"

fun round10 :: "jsnum \<Rightarrow> jsnum" where
  "round10 (Fin a) = js_div10 (js_round (fl (a * 10)))"
| "round10 x = x"

text \<open>
  \<^verbatim>\<open>getState()\<close> returns \<^verbatim>\<open>JSON.parse(JSON.stringify(state))\<close>: a number that is not
  finite comes back as \<^verbatim>\<open>null\<close>. In arithmetic \<^verbatim>\<open>null\<close> counts as 0; under
  \<^verbatim>\<open>===\<close> it equals no number.
\<close>

datatype json = JNum real | JNull

fun json_of :: "jsnum \<Rightarrow> json" where
  "json_of (Fin a) = JNum a"
| "json_of _ = JNull"

fun to_number :: "json \<Rightarrow> jsnum" where
  "to_number (JNum a) = Fin a"
| "to_number JNull = Fin 0"

fun strict_eq :: "json \<Rightarrow> jsval \<Rightarrow> bool" where
  "strict_eq (JNum a) (Num (Fin b)) = (a = b)"
| "strict_eq _ _ = False"

text \<open>\<^verbatim>\<open>list.includes(v)\<close> for a list of finite numbers.\<close>

fun js_includes :: "real list \<Rightarrow> jsval \<Rightarrow> bool" where
  "js_includes ds (Num (Fin d)) = (d \<in> set ds)"
| "js_includes ds _ = False"

section \<open>Configuration and the state store\<close>

record config =
  minBPM :: real
  maxBPM :: real
  minBeatNumerator :: real
  maxBeatNumerator :: real
  validDenominators :: "real list"

definition CONFIG :: config where
  "CONFIG = \<lparr>minBPM = 40, maxBPM = 300, minBeatNumerator = 1, maxBeatNumerator = 16,
              validDenominators = [1, 2, 4, 8, 16]\<rparr>"

text \<open>
  The world of the module-level \<^verbatim>\<open>metronome.js\<close>: the scheduler singleton and its host,
  the fields of the state store that the module writes (prefix \<open>st_\<close>; the store's volume
  and training fields are written by none of the functions below and are left out), the
  module's own variables, and \<open>buffersReady\<close> for what \<^verbatim>\<open>soundBuffers.js\<close> contributes to
  \<^verbatim>\<open>isAudioReady()\<close> (initialised, with at least one buffer).
\<close>

record world = scheduler +
  st_bpm :: jsnum
  st_beatNumerator :: jsnum
  st_beatDenominator :: jsnum
  st_isRunning :: bool
  st_currentBeat :: int
  st_currentBar :: int
  toggleLock :: bool
  isInitialized :: bool
  totalBeats :: nat
  totalRuntime :: int
  lastStartTime :: nat
  buffersReady :: bool

definition TOGGLE_LOCK_DURATION :: real where "TOGGLE_LOCK_DURATION = 300"

definition world0 :: "nat \<Rightarrow> world" where
  "world0 t =
     \<lparr>now = t, next_id = 1, timers = [], trace = [],
      audioContext = None, isRunning = False, currentBeat = 1, nextBeatTime = 0,
      schedulerCallback = None, lastUpdateTime = 0, timerID = None, errorCount = 0,
      recoveryTimeout = None, performanceStats = perf0,
      st_bpm = Fin 120, st_beatNumerator = Fin 4, st_beatDenominator = Fin 4,
      st_isRunning = False, st_currentBeat = 0, st_currentBar = 0,
      toggleLock = False, isInitialized = False,
      totalBeats = 0, totalRuntime = 0, lastStartTime = 0, buffersReady = False\<rparr>"

section \<open>The module-level metronome functions\<close>

text \<open>
  What \<^verbatim>\<open>getState()\<close> hands to the scheduler when \<^verbatim>\<open>startMetronome\<close> starts it. For a
  finite stored tempo and a stored numerator that is a natural number these are the
  stored values. For any other stored value the scheduler would compute with \<^verbatim>\<open>NaN\<close>,
  which the scheduler model does not represent; the tick that \<^verbatim>\<open>start\<close> runs schedules
  no beat, so neither reading influences the result of \<^verbatim>\<open>startMetronome\<close>.
\<close>

definition tempo_read :: "jsnum \<Rightarrow> real" where
  "tempo_read x = (case x of Fin r \<Rightarrow> r | _ \<Rightarrow> 0)"

definition numerator_read :: "jsnum \<Rightarrow> nat" where
  "numerator_read x = (case x of Fin r \<Rightarrow> nat \<lfloor>r\<rfloor> | _ \<Rightarrow> 0)"

text \<open>
  The module's callback \<^verbatim>\<open>scheduleBeat\<close> wraps its whole body in \<^verbatim>\<open>try/catch\<close> and
  hands any error to \<^verbatim>\<open>handleAudioError\<close>. What can reach that \<^verbatim>\<open>catch\<close> is an error
  of the runtime (\<^verbatim>\<open>playSound\<close> and \<^verbatim>\<open>updateState\<close> catch their own, and
  \<^verbatim>\<open>dispatchEvent\<close> does not pass on what a listener throws), never \<^verbatim>\<open>null\<close> or
  \<^verbatim>\<open>undefined\<close>: seen from the scheduler the callback always returns.
\<close>

definition scheduleBeat :: callback where
  "scheduleBeat = (\<lambda>k t b. Returns)"

definition isAudioReady :: "world \<Rightarrow> bool" where
  "isAudioReady w =
     (buffersReady w \<and> (case audioContext w of None \<Rightarrow> False | Some c \<Rightarrow> state c \<noteq> Closed))"

definition startFailed :: "world \<Rightarrow> bool \<times> world" where
  "startFailed w = (False, emit (Emit StartFailed) ((emit ErrLog w)\<lparr>st_isRunning := False\<rparr>))"

definition startMetronome :: "nat \<Rightarrow> world \<Rightarrow> bool \<times> world" where
  "startMetronome late w =
     (if \<not> isInitialized w then startFailed w
      else if \<not> isAudioReady w then startFailed w
      else if st_isRunning w then (False, w)
      else
        let w1 = w\<lparr>totalBeats := 0, lastStartTime := now w, st_isRunning := True\<rparr>
        in (case start (Some scheduleBeat) late
                   (tempo_read (st_bpm w1)) (numerator_read (st_beatNumerator w1)) w1 of
              (False, w2) \<Rightarrow> startFailed w2
            | (True, w2) \<Rightarrow> (True, emit (Emit Started) w2)))"

definition stopMetronome :: "world \<Rightarrow> bool \<times> world" where
  "stopMetronome w =
     (if \<not> st_isRunning w then (False, w)
      else
        let w1 = (if lastStartTime w > 0
                  then w\<lparr>totalRuntime := totalRuntime w + (int (now w) - int (lastStartTime w))\<rparr>
                  else w);
            w2 = stop w1;
            w3 = w2\<lparr>st_isRunning := False, st_currentBeat := 0, st_currentBar := 0\<rparr>
        in (True, emit (Emit Stopped) w3))"

definition toggleMetronome :: "nat \<Rightarrow> world \<Rightarrow> bool \<times> world" where
  "toggleMetronome late w =
     (if toggleLock w then (False, w)
      else
        let w1 = snd (setTimeout UnlockTimer TOGGLE_LOCK_DURATION (w\<lparr>toggleLock := True\<rparr>))
        in if st_isRunning w1 then stopMetronome w1 else startMetronome late w1)"

text \<open>
  \<^verbatim>\<open>setBPM(newBPM)\<close>. The range check throws into the function's own \<^verbatim>\<open>catch\<close>; an
  accepted value is rounded to one decimal, and the function returns early when
  \<^verbatim>\<open>Math.abs(state.bpm - clampedBPM) < 0.1\<close>, the literal \<^verbatim>\<open>0.1\<close> being the double
  nearest to one tenth. The argument, the two bounds and the stored tempo are read as
  doubles.
\<close>

definition setBPM :: "config \<Rightarrow> jsval \<Rightarrow> world \<Rightarrow> bool \<times> world" where
  "setBPM cfg newBPM w =
     (case newBPM of
        NonNumber \<Rightarrow> (False, emit ErrLog w)
      | Num x0 \<Rightarrow>
          let x = as_double x0 in
          if js_lt x (fl (minBPM cfg)) \<or> js_gt x (fl (maxBPM cfg)) then (False, emit ErrLog w)
          else
            let clampedBPM = round10 x;
                bpm = as_double (to_number (json_of (st_bpm w)))
            in
            if js_lt (js_abs (js_sub bpm clampedBPM)) (fl (1 / 10))
            then (True, w)
            else
              let w1 = w\<lparr>st_bpm := clampedBPM\<rparr>;
                  w2 = (if st_isRunning w then snd (updateInterval w1) else w1)
              in (True, emit (Emit BpmChanged) w2))"

definition setTimeSignature :: "config \<Rightarrow> jsval \<Rightarrow> jsval \<Rightarrow> world \<Rightarrow> bool \<times> world" where
  "setTimeSignature cfg numerator denominator w =
     (case numerator of
        NonNumber \<Rightarrow> (False, emit ErrLog w)
      | Num n \<Rightarrow>
          if js_lt n (Fin (minBeatNumerator cfg)) \<or> js_gt n (Fin (maxBeatNumerator cfg))
          then (False, emit ErrLog w)
          else if \<not> js_includes (validDenominators cfg) denominator then (False, emit ErrLog w)
          else if strict_eq (json_of (st_beatNumerator w)) numerator \<and>
                  strict_eq (json_of (st_beatDenominator w)) denominator
          then (True, w)
          else
            let w1 = w\<lparr>st_beatNumerator := n,
                       st_beatDenominator := (case denominator of Num d \<Rightarrow> d | NonNumber \<Rightarrow> NaN),
                       st_currentBeat := 0, st_currentBar := 0\<rparr>;
                w2 = (if st_isRunning w then snd (updateInterval w1) else w1)
            in (True, emit (Emit TimeSignatureChanged) w2))"

subsection \<open>The toggle lock over time\<close>

text \<open>
  The events that can reach \<^verbatim>\<open>toggleLock\<close>, a variable private to the module: a call of
  \<^verbatim>\<open>toggleMetronome\<close>, the passing of wall-clock time, and the host running the callback of
  a pending unlock timer, once it is due. The callbacks of the scheduler's own timers
  do not touch the lock and are not among these events.
\<close>

datatype lock_event = CallToggle nat | Wait nat | FireTimer nat

fun lock_step :: "lock_event \<Rightarrow> world \<Rightarrow> world" where
  "lock_step (CallToggle late) w = snd (toggleMetronome late w)"
| "lock_step (Wait d) w = w\<lparr>now := now w + d\<rparr>"
| "lock_step (FireTimer i) w =
     (case due_timer i w of
        None \<Rightarrow> w
      | Some t \<Rightarrow>
          if t_kind t = UnlockTimer then (clearTimeout i w)\<lparr>toggleLock := False\<rparr> else w)"

fun lock_run :: "lock_event list \<Rightarrow> world \<Rightarrow> world" where
  "lock_run [] w = w"
| "lock_run (e # es) w = lock_run es (lock_step e w)"

definition unlock_timers :: "world \<Rightarrow> timer list" where
  "unlock_timers w = filter (\<lambda>t. t_kind t = UnlockTimer) (timers w)"

definition handle_ok :: "world \<Rightarrow> nat option \<Rightarrow> bool" where
  "handle_ok w h = (case h of None \<Rightarrow> True | Some i \<Rightarrow> i < next_id w \<and> i \<notin> t_id ` set (unlock_timers w))"

text \<open>
  Timer handles are fresh when issued, and the scheduler's two handles never name an
  unlock timer.
\<close>

definition ids_ok :: "world \<Rightarrow> bool" where
  "ids_ok w =
     (list_all (\<lambda>t. t_id t < next_id w) (timers w) \<and>
      handle_ok w (timerID w) \<and> handle_ok w (recoveryTimeout w))"

text \<open>The invariant of the lock: it is held exactly while one unlock timer is pending.\<close>

definition lock_inv :: "world \<Rightarrow> bool" where
  "lock_inv w =
     ((if toggleLock w then length (unlock_timers w) = 1 else unlock_timers w = []) \<and> ids_ok w)"

text \<open>What a step from \<open>w\<close> to \<open>w'\<close> that is no business of the lock leaves in place.\<close>

definition lock_safe :: "world \<Rightarrow> world \<Rightarrow> bool" where
  "lock_safe w w' =
     (toggleLock w' = toggleLock w \<and> unlock_timers w' = unlock_timers w \<and>
      now w \<le> now w' \<and> next_id w \<le> next_id w' \<and> ids_ok w')"

section \<open>The \<^verbatim>\<open>Metronome\<close> class\<close>

text \<open>
  The helper \<^verbatim>\<open>clamp(value, min, max) = Math.min(Math.max(Number(value) || 0, min), max)\<close>
  of the class file, for a number \<open>value\<close> and finite bounds: \<^verbatim>\<open>NaN || 0\<close> is 0.
\<close>

fun clamp :: "jsnum \<Rightarrow> real \<Rightarrow> real \<Rightarrow> real" where
  "clamp (Fin a) lo hi = min (max a lo) hi"
| "clamp NaN lo hi = min (max 0 lo) hi"
| "clamp PosInf lo hi = hi"
| "clamp NegInf lo hi = min lo hi"

text \<open>\<^verbatim>\<open>getConfig(key) || d\<close> for a numeric entry.\<close>

definition or_default :: "real \<Rightarrow> real \<Rightarrow> real" where
  "or_default x d = (if x = 0 then d else x)"

text \<open>\<^verbatim>\<open>Metronome.setBPM(bpm)\<close>; the first component is \<^verbatim>\<open>this.bpm\<close>. It returns nothing.\<close>

definition Metronome_setBPM :: "config \<Rightarrow> jsnum \<Rightarrow> world \<Rightarrow> real \<times> world" where
  "Metronome_setBPM cfg bpm w =
     (let b = clamp bpm (or_default (minBPM cfg) 40) (or_default (maxBPM cfg) 208)
      in (b, w\<lparr>st_bpm := Fin b\<rparr>))"

record tone =
  frequency :: real
  duration :: real

definition toneConfig :: "bool \<Rightarrow> tone" where
  "toneConfig isAccent =
     (if isAccent then \<lparr>frequency = 1200, duration = 0.07\<rparr>
      else \<lparr>frequency = 800, duration = 0.05\<rparr>)"

text \<open>
  What \<^verbatim>\<open>Metronome._playBeat({time, isAccent, volume})\<close> programs into the audio graph:
  the oscillator's start and stop times and the peak of the gain ramp. \<open>None\<close> when the
  body throws into its own \<^verbatim>\<open>catch\<close> (volume not a number, no audio context).
\<close>

record osc_voice =
  o_peak :: real
  o_start :: real
  o_stop :: real

definition Metronome_playBeat :: "audio_ctx option \<Rightarrow> real \<Rightarrow> bool \<Rightarrow> real option \<Rightarrow> osc_voice option" where
  "Metronome_playBeat ctx time isAccent volume =
     (case volume of
        None \<Rightarrow> None
      | Some v \<Rightarrow>
          (case ctx of
             None \<Rightarrow> None
           | Some c \<Rightarrow>
               let audioVolume = v / 100;
                   safeVolume = clamp (Fin audioVolume) 0 1;
                   tn = toneConfig isAccent
               in Some \<lparr>o_peak = safeVolume * 0.5, o_start = time,
                        o_stop = time + duration tn + 0.01\<rparr>))"

section \<open>The sound emitter of \<^verbatim>\<open>soundBuffers.js\<close>\<close>

record sound_config =
  firstBeatSound :: string
  regularBeatSound :: string

definition getActualSoundDuration :: "string \<Rightarrow> real" where
  "getActualSoundDuration soundType =
     (if soundType = ''high'' then 0.02
      else if soundType = ''low'' then 0.03
      else if soundType = ''medium'' then 0.025
      else if soundType = ''click'' then 0.01
      else if soundType = ''beep'' then 0.05
      else 0.03)"

text \<open>
  The options object: whether \<^verbatim>\<open>type\<close> is \<^verbatim>\<open>'firstBeat'\<close>, and \<^verbatim>\<open>time\<close> and
  \<^verbatim>\<open>volume\<close>, each \<open>None\<close> when the property is absent (the destructuring defaults
  apply).
\<close>

record play_options =
  opt_first :: bool
  opt_time :: "real option"
  opt_volume :: "real option"

text \<open>
  What \<^verbatim>\<open>playSoundInternal\<close> programs: the gain it ramps to, the time passed to
  \<^verbatim>\<open>source.start\<close>, when the peak is reached and when the gain is back at 0.
\<close>

record voice =
  v_gain :: real
  v_start :: real
  v_peakAt :: real
  v_silentAt :: real

text \<open>\<^verbatim>\<open>getConfig('sounds.firstBeatSound') || 'high'\<close>, or the regular sound with \<^verbatim>\<open>'medium'\<close>.\<close>

definition chosenSound :: "sound_config \<Rightarrow> bool \<Rightarrow> string" where
  "chosenSound cfg first =
     (if first then (if firstBeatSound cfg = [] then ''high'' else firstBeatSound cfg)
      else (if regularBeatSound cfg = [] then ''medium'' else regularBeatSound cfg))"

text \<open>
  The gain envelope and the start time, from the audio clock's reading \<open>ct\<close> and the
  requested \<open>time\<close> and \<open>volume\<close>.
\<close>

definition envelope :: "real \<Rightarrow> real \<Rightarrow> real \<Rightarrow> string \<Rightarrow> voice" where
  "envelope ct time volume soundType =
     (let safeVolume = max 0 (min 0.9 volume);
          actualDuration = getActualSoundDuration soundType;
          startTime = max time ct;
          fadeInTime = min 0.002 (actualDuration * 0.1);
          fadeOutTime = min 0.003 (actualDuration * 0.15);
          totalFadeTime = fadeInTime + fadeOutTime;
          shrink = totalFadeTime > actualDuration * 0.8;
          scale = (actualDuration * 0.8) / totalFadeTime;
          adjustedFadeIn = (if shrink then fadeInTime * scale else fadeInTime);
          adjustedFadeOut = (if shrink then fadeOutTime * scale else fadeOutTime);
          sustainTime = max 0 (actualDuration - adjustedFadeIn - adjustedFadeOut)
      in \<lparr>v_gain = safeVolume, v_start = startTime,
          v_peakAt = startTime + adjustedFadeIn,
          v_silentAt =
            (if sustainTime > 0.001 then startTime + actualDuration
             else startTime + adjustedFadeIn + adjustedFadeOut)\<rparr>)"

text \<open>
  \<^verbatim>\<open>playSoundInternal(options)\<close>, for finite \<^verbatim>\<open>time\<close> and \<^verbatim>\<open>volume\<close>. \<open>initialized\<close> is
  the module's flag, \<open>ctx\<close> is \<^verbatim>\<open>scheduler.audioContext\<close>, \<open>hasBuffer\<close> tells whether a
  buffer exists for a sound name. The result is \<open>None\<close> where the function returns
  \<^verbatim>\<open>false\<close> before it programs anything, \<open>Some\<close> where it returns \<^verbatim>\<open>true\<close>.
\<close>

definition playSoundInternal ::
  "bool \<Rightarrow> audio_ctx option \<Rightarrow> sound_config \<Rightarrow> (string \<Rightarrow> bool) \<Rightarrow> play_options option \<Rightarrow> voice option" where
  "playSoundInternal initialized ctx cfg hasBuffer options =
     (case ctx of
        None \<Rightarrow> None
      | Some c \<Rightarrow>
          if \<not> initialized then None
          else (case options of
                  None \<Rightarrow> None
                | Some opts \<Rightarrow>
                    let time = (case opt_time opts of None \<Rightarrow> currentTime c | Some t \<Rightarrow> t);
                        volume = (case opt_volume opts of None \<Rightarrow> 1 | Some v \<Rightarrow> v);
                        soundType = chosenSound cfg (opt_first opts)
                    in if \<not> hasBuffer soundType then None
                       else Some (envelope (currentTime c) time volume soundType)))"

section \<open>Concrete inputs for the examples\<close>

definition always_throws :: callback where
  "always_throws = (\<lambda>k t b. Throws)"

definition always_returns :: callback where
  "always_returns = (\<lambda>k t b. Returns)"

text \<open>A callback that returns once and then throws \<^verbatim>\<open>null\<close>.\<close>

definition throws_null_second :: callback where
  "throws_null_second = (\<lambda>k t b. if k = 0 then Returns else ThrowsUnloggable)"

text \<open>An initialised scheduler: wall clock at 1000 ms, a running context at 1 s.\<close>

definition ready0 :: scheduler where
  "ready0 = (scheduler0 1000)\<lparr>audioContext := Some \<lparr>state = Running, currentTime = 1\<rparr>\<rparr>"

definition started :: "callback \<Rightarrow> scheduler" where
  "started cb = snd (start (Some cb) 0 120 4 ready0)"

text \<open>
  A run in which every callback invocation throws: start at 120 bpm, then one tick
  when the audio clock reads 3 s, so that the beats at 1.2 s, 1.7 s and 2.2 s are due.
\<close>

definition c1_run :: scheduler where
  "c1_run = run [Elapse 10, AudioClock 3, Tick 120 4] (started always_throws)"

text \<open>
  The scheduler of \<open>c1_run\<close> a second later, when its recovery timer is due: the audio
  context has just been closed and the scheduler still references it, the
  \<^verbatim>\<open>statechange\<close> event not having been delivered yet. And a context as
  \<^verbatim>\<open>new AudioContext\<close> yields it.
\<close>

definition closed_pending :: scheduler where
  "closed_pending = run [Elapse 1000, CtxState Closed] c1_run"

definition fresh_ctx :: audio_ctx where
  "fresh_ctx = \<lparr>state = Running, currentTime = 0\<rparr>"

text \<open>The started scheduler ten milliseconds later, its audio context now suspended.\<close>

definition susp0 :: scheduler where
  "susp0 = run [Elapse 10, CtxState Suspended] (started always_returns)"

text \<open>
  The same without the ten milliseconds, and a scheduler that is initialised with a
  suspended context and not started yet.
\<close>

definition susp_now :: scheduler where
  "susp_now = run [CtxState Suspended] (started always_returns)"

definition ready_susp :: scheduler where
  "ready_susp = (scheduler0 1000)\<lparr>audioContext := Some \<lparr>state = Suspended, currentTime = 1\<rparr>\<rparr>"

text \<open>
  A run with a tempo change: the tick at audio time 1.01 s dispatches the beat due at
  1.2 s; at 1.02 s the tempo is set to 100 and \<^verbatim>\<open>setBPM\<close> calls \<^verbatim>\<open>updateInterval\<close>; the
  next tick follows 5 ms later.
\<close>

definition c2_run :: scheduler where
  "c2_run = run [Elapse 10, AudioClock 1.01, Tick 120 4, AudioClock 1.02, Realign,
                 Elapse 5, Tick 100 4] (started always_returns)"

text \<open>A run of three ticks in 3/4, with a tempo change from 120 to 90 after the second beat.\<close>

definition waltz :: "event list" where
  "waltz = [Elapse 10, AudioClock 1.9, Tick 120 3, Elapse 100, Realign, AudioClock 3.5,
            Tick 90 3, Elapse 100, AudioClock 4, Tick 90 3]"

text \<open>A run without a re-anchoring, the tempo read by the second tick being 60.\<close>

definition steady :: "event list" where
  "steady = [Elapse 10, AudioClock 2.1, Tick 120 4, Elapse 100, AudioClock 3.6, Tick 60 4]"

text \<open>
  An initialised metronome at rest, and a second of its life: a toggle that starts it,
  another one 100 ms later, 250 ms of waiting, the unlock timer, a third toggle.
\<close>

definition world1 :: world where
  "world1 = (world0 1000)\<lparr>audioContext := Some \<lparr>state = Running, currentTime = 1\<rparr>,
                           isInitialized := True, buffersReady := True\<rparr>"

definition busy :: "lock_event list" where
  "busy = [Wait 100, CallToggle 0, Wait 199]"

text \<open>A request for a first beat, dated half a second in the past, at volume 1.5.\<close>

definition demo_sounds :: sound_config where
  "demo_sounds = \<lparr>firstBeatSound = ''high'', regularBeatSound = ''low''\<rparr>"

definition late_loud :: play_options where
  "late_loud = \<lparr>opt_first = True, opt_time = Some 0.5, opt_volume = Some 1.5\<rparr>"

section \<open>Evaluation lemmas\<close>

lemma beatLoop_unfold:
  "beatLoop k ct bpm n s =
     (if k = 0 then (False, s)
      else if nextBeatTime s < ct + scheduleAheadTime
      then (case dispatchBeat ct bpm n s of
              (True, s') \<Rightarrow> (True, s')
            | (False, s') \<Rightarrow> beatLoop (k - 1) ct bpm n s')
      else (False, s))"
  by (cases k) (auto split: prod.splits bool.splits)

lemma beatLoop_not_due:
  "\<not> nextBeatTime s < ct + scheduleAheadTime \<Longrightarrow> beatLoop k ct bpm n s = (False, s)"
  by (cases k) simp_all

lemmas sched_defs =
  start_def schedulerLoop_def throttled_def rearm_def setTimeout_def clearTimeout_def emit_def
  stop_def attemptRecovery_def dispatchBeat_def beatFailed_def beatSucceeded_def outerCatch_def
  scheduleAheadTime_def minScheduleInterval_def maxScheduleInterval_def maxAllowedErrors_def
  maxSchedulesPerIteration_def scheduler0_def perf0_def updateInterval_def reset_def

lemma quantum_down_unfold:
  "quantum_down k q a =
     (if k = 0 then q else if a < 2 ^ 52 * q then quantum_down (k - 1) (q / 2) a else q)"
  by (cases k) simp_all

lemma quantum_up_unfold:
  "quantum_up k q a =
     (if k = 0 then q else if 2 ^ 53 * q \<le> a then quantum_up (k - 1) (2 * q) a else q)"
  by (cases k) simp_all

lemmas double_defs =
  fl_def rnd_def quantum_def quantum_down_unfold quantum_up_unfold round_even_def
  max_double_def Let_def

text \<open>
  The rounding is what the text above says. The spacing is a positive power of two;
  for a magnitude between the smallest normal number and \<open>2^1024\<close> it puts the magnitude
  between \<open>2^52\<close> and \<open>2^53\<close> spacings; the rounded number is a multiple of the spacing
  with a significand of at most 53 bits, and it is off by half a spacing at most, which
  is a relative error of at most \<open>2^-53\<close>.
\<close>

lemma quantum_down_pos: "0 < q \<Longrightarrow> 0 < quantum_down k q a"
  by (induction k arbitrary: q) simp_all

lemma quantum_up_pos: "0 < q \<Longrightarrow> 0 < quantum_up k q a"
  by (induction k arbitrary: q) simp_all

lemma quantum_pos: "0 < quantum a"
  by (simp add: quantum_def quantum_down_pos quantum_up_pos)

lemma quantum_down_upper: "a < 2 ^ 53 * q \<Longrightarrow> a < 2 ^ 53 * quantum_down k q a"
  by (induction k arbitrary: q) simp_all

lemma quantum_down_lower:
  "2 ^ 52 * (q / 2 ^ k) \<le> a \<Longrightarrow> 2 ^ 52 * quantum_down k q a \<le> a"
proof (induction k arbitrary: q)
  case 0
  then show ?case by simp
next
  case (Suc k)
  have "2 ^ 52 * (q / 2 / 2 ^ k) = 2 ^ 52 * (q / 2 ^ Suc k)" by simp
  with Suc.prems have "2 ^ 52 * (q / 2 / 2 ^ k) \<le> a" by simp
  then have "2 ^ 52 * quantum_down k (q / 2) a \<le> a" by (rule Suc.IH)
  then show ?case by simp
qed

lemma quantum_up_lower: "2 ^ 52 * q \<le> a \<Longrightarrow> 2 ^ 52 * quantum_up k q a \<le> a"
  by (induction k arbitrary: q) simp_all

lemma quantum_up_upper:
  "a < 2 ^ 53 * (q * 2 ^ k) \<Longrightarrow> a < 2 ^ 53 * quantum_up k q a"
proof (induction k arbitrary: q)
  case 0
  then show ?case by simp
next
  case (Suc k)
  have "2 ^ 53 * (2 * q * 2 ^ k) = 2 ^ 53 * (q * 2 ^ Suc k)" by simp
  with Suc.prems have "a < 2 ^ 53 * (2 * q * 2 ^ k)" by simp
  then have "a < 2 ^ 53 * quantum_up k (2 * q) a" by (rule Suc.IH)
  then show ?case by (simp add: not_le)
qed

lemma quantum_bounds:
  assumes "2 ^ 52 / 2 ^ 1074 \<le> a" and "a < 2 ^ 1024"
  shows "2 ^ 52 * quantum a \<le> a" and "a < 2 ^ 53 * quantum a"
proof -
  show "2 ^ 52 * quantum a \<le> a"
  proof (cases "a < 2 ^ 52")
    case True
    have "2 ^ 52 * quantum_down 1074 1 a \<le> a"
      by (rule quantum_down_lower) (use assms(1) in simp)
    with True show ?thesis by (simp add: quantum_def)
  next
    case False
    have "2 ^ 52 * quantum_up 971 1 a \<le> a"
      by (rule quantum_up_lower) (use False in simp)
    with False show ?thesis by (simp add: quantum_def)
  qed
  show "a < 2 ^ 53 * quantum a"
  proof (cases "a < 2 ^ 52")
    case True
    have "a < 2 ^ 53 * quantum_down 1074 1 a"
      by (rule quantum_down_upper) (use True in simp)
    with True show ?thesis by (simp add: quantum_def)
  next
    case False
    have "(2::real) ^ 53 * (1 * 2 ^ 971) = 2 ^ 1024" by (simp flip: power_add)
    then have "a < 2 ^ 53 * (1 * 2 ^ 971)" using assms(2) by simp
    then have "a < 2 ^ 53 * quantum_up 971 1 a" by (rule quantum_up_upper)
    with False show ?thesis by (simp add: quantum_def)
  qed
qed

lemma round_even_error: "\<bar>of_int (round_even y) - y\<bar> \<le> 1 / 2"
  unfolding round_even_def Let_def by (auto; linarith)

lemma rnd_error: "\<bar>rnd r - r\<bar> \<le> quantum \<bar>r\<bar> / 2"
proof (cases "r = 0")
  case True
  then show ?thesis using quantum_pos [of 0] by (simp add: rnd_def)
next
  case False
  let ?q = "quantum \<bar>r\<bar>"
  have q: "0 < ?q" by (rule quantum_pos)
  have "rnd r - r = ?q * (of_int (round_even (r / ?q)) - r / ?q)"
    using q False by (simp add: rnd_def algebra_simps)
  then have "\<bar>rnd r - r\<bar> = ?q * \<bar>of_int (round_even (r / ?q)) - r / ?q\<bar>"
    using q by (simp add: abs_mult)
  also have "\<dots> \<le> ?q * (1 / 2)"
    using q round_even_error [of "r / ?q"] by (intro mult_left_mono) simp_all
  finally show ?thesis by simp
qed

lemma rnd_relative_error:
  assumes "2 ^ 52 / 2 ^ 1074 \<le> \<bar>r\<bar>" and "\<bar>r\<bar> < 2 ^ 1024"
  shows "\<bar>rnd r - r\<bar> \<le> \<bar>r\<bar> / 2 ^ 53"
proof -
  have "2 ^ 52 * quantum \<bar>r\<bar> \<le> \<bar>r\<bar>" using assms by (rule quantum_bounds)
  then have "quantum \<bar>r\<bar> / 2 \<le> \<bar>r\<bar> / 2 ^ 53" by simp
  with rnd_error [of r] show ?thesis by simp
qed

lemma rnd_significand:
  assumes "2 ^ 52 / 2 ^ 1074 \<le> \<bar>r\<bar>" and "\<bar>r\<bar> < 2 ^ 1024"
  shows "\<exists>k::int. rnd r = quantum \<bar>r\<bar> * of_int k \<and> \<bar>k\<bar> \<le> 2 ^ 53"
proof -
  let ?q = "quantum \<bar>r\<bar>"
  let ?k = "round_even (r / ?q)"
  have q: "0 < ?q" by (rule quantum_pos)
  have nz: "r \<noteq> 0" using assms(1) by auto
  have "\<bar>r\<bar> < 2 ^ 53 * ?q" using assms by (rule quantum_bounds)
  then have y: "\<bar>r / ?q\<bar> < 2 ^ 53" using q by (simp add: abs_divide pos_divide_less_eq)
  have "\<bar>real_of_int ?k\<bar> \<le> \<bar>of_int ?k - r / ?q\<bar> + \<bar>r / ?q\<bar>" by linarith
  also have "\<dots> < 1 / 2 + 2 ^ 53" using round_even_error [of "r / ?q"] y by linarith
  finally have "real_of_int \<bar>?k\<bar> < real_of_int (2 ^ 53) + 1 / 2" by simp
  then have "\<bar>?k\<bar> \<le> 2 ^ 53" by linarith
  moreover have "rnd r = ?q * of_int ?k" using nz by (simp add: rnd_def)
  ultimately show ?thesis by blast
qed

lemma quantum_down_pow: "\<exists>i. quantum_down k (1 / 2 ^ j) a = 1 / 2 ^ i"
proof (induction k arbitrary: j)
  case 0
  show ?case by auto
next
  case (Suc k)
  obtain i where i: "quantum_down k (1 / 2 ^ Suc j) a = 1 / 2 ^ i" using Suc by blast
  have e: "(1::real) / 2 ^ j / 2 = 1 / 2 ^ Suc j" by simp
  have "quantum_down (Suc k) (1 / 2 ^ j) a =
          (if a < 2 ^ 52 * (1 / 2 ^ j) then quantum_down k (1 / 2 ^ Suc j) a else 1 / 2 ^ j)"
    by (simp only: quantum_down.simps e)
  with i show ?case by (cases "a < 2 ^ 52 * (1 / 2 ^ j)") auto
qed

lemma quantum_up_pow: "\<exists>i. quantum_up k (2 ^ j) a = 2 ^ i"
proof (induction k arbitrary: j)
  case 0
  show ?case by auto
next
  case (Suc k)
  obtain i where i: "quantum_up k (2 ^ Suc j) a = 2 ^ i" using Suc by blast
  have e: "(2::real) * 2 ^ j = 2 ^ Suc j" by simp
  have "quantum_up (Suc k) (2 ^ j) a =
          (if 2 ^ 53 * 2 ^ j \<le> a then quantum_up k (2 ^ Suc j) a else 2 ^ j)"
    by (simp only: quantum_up.simps e)
  with i show ?case by (cases "2 ^ 53 * 2 ^ j \<le> a") auto
qed

lemma quantum_pow: "\<exists>i. quantum a = 2 ^ i \<or> quantum a = 1 / 2 ^ i"
proof (cases "a < 2 ^ 52")
  case True
  obtain i where "quantum_down 1074 (1 / 2 ^ 0) a = 1 / 2 ^ i"
    using quantum_down_pow by blast
  then have "quantum_down 1074 1 a = 1 / 2 ^ i" by (simp only: power_0 div_by_1)
  with True have "quantum a = 1 / 2 ^ i" by (simp only: quantum_def if_True)
  then show ?thesis by blast
next
  case False
  obtain i where "quantum_up 971 (2 ^ 0) a = 2 ^ i"
    using quantum_up_pow by blast
  then have "quantum_up 971 1 a = 2 ^ i" by (simp only: power_0)
  with False have "quantum a = 2 ^ i" by (simp only: quantum_def if_False)
  then show ?thesis by blast
qed

lemmas example_defs =
  always_throws_def always_returns_def ready0_def started_def susp0_def

lemmas run_defs = waltz_def steady_def c2_run_def dispatched_def

section \<open>Frame lemmas of the scheduler\<close>

lemma stop_fields [simp]:
  "isRunning (stop s) = False" "trace (stop s) = trace s"
  "nextBeatTime (stop s) = nextBeatTime s" "currentBeat (stop s) = 1"
  "errorCount (stop s) = 0" "schedulerCallback (stop s) = None"
  "audioContext (stop s) = audioContext s" "now (stop s) = now s"
  "next_id (stop s) = next_id s" "timerID (stop s) = None"
  "recoveryTimeout (stop s) = None" "lastUpdateTime (stop s) = lastUpdateTime s"
  "performanceStats (stop s) = performanceStats s"
  by (simp_all add: stop_def clearTimeout_def Let_def split: option.splits)

lemma attemptRecovery_fields [simp]:
  "isRunning (attemptRecovery s) = isRunning s" "trace (attemptRecovery s) = trace s"
  "nextBeatTime (attemptRecovery s) = nextBeatTime s"
  "currentBeat (attemptRecovery s) = currentBeat s"
  "errorCount (attemptRecovery s) = errorCount s"
  "schedulerCallback (attemptRecovery s) = schedulerCallback s"
  "audioContext (attemptRecovery s) = audioContext s" "now (attemptRecovery s) = now s"
  "timerID (attemptRecovery s) = timerID s"
  "lastUpdateTime (attemptRecovery s) = lastUpdateTime s"
  "performanceStats (attemptRecovery s) = performanceStats s"
  by (simp_all add: attemptRecovery_def setTimeout_def)

lemma rearm_fields [simp]:
  "isRunning (rearm d s) = isRunning s" "trace (rearm d s) = trace s"
  "nextBeatTime (rearm d s) = nextBeatTime s" "currentBeat (rearm d s) = currentBeat s"
  "errorCount (rearm d s) = errorCount s" "schedulerCallback (rearm d s) = schedulerCallback s"
  "audioContext (rearm d s) = audioContext s" "now (rearm d s) = now s"
  "timerID (rearm d s) = Some (next_id s)" "next_id (rearm d s) = Suc (next_id s)"
  "recoveryTimeout (rearm d s) = recoveryTimeout s"
  "lastUpdateTime (rearm d s) = lastUpdateTime s"
  "performanceStats (rearm d s) = performanceStats s"
  "timers (rearm d s) = timers s @ [\<lparr>t_id = next_id s, t_kind = LoopTimer, t_due = real (now s) + d\<rparr>]"
  by (simp_all add: rearm_def setTimeout_def)

lemma emit_fields [simp]:
  "isRunning (emit x s) = isRunning s" "trace (emit x s) = trace s @ [x]"
  "nextBeatTime (emit x s) = nextBeatTime s" "currentBeat (emit x s) = currentBeat s"
  "errorCount (emit x s) = errorCount s" "schedulerCallback (emit x s) = schedulerCallback s"
  "audioContext (emit x s) = audioContext s" "now (emit x s) = now s"
  "timerID (emit x s) = timerID s" "next_id (emit x s) = next_id s"
  "recoveryTimeout (emit x s) = recoveryTimeout s"
  "lastUpdateTime (emit x s) = lastUpdateTime s"
  "performanceStats (emit x s) = performanceStats s"
  "timers (emit x s) = timers s"
  by (simp_all add: emit_def)

lemma beats_append [simp]: "beats (xs @ ys) = beats xs @ beats ys"
  by (induction xs rule: beats.induct) simp_all

lemma dispatchBeat_trace:
  "\<exists>xs. trace (snd (dispatchBeat ct bpm n s)) = trace s @ xs"
  by (simp add: dispatchBeat_def beatFailed_def beatSucceeded_def outerCatch_def Let_def
        split: option.splits outcome.splits)

lemma dispatchBeat_trace_first:
  assumes "schedulerCallback s = Some cb"
  shows "\<exists>xs. trace (snd (dispatchBeat ct bpm n s)) =
               trace s @ Beat (nextBeatTime s) (currentBeat s) bpm # xs"
  using assms
  by (simp add: dispatchBeat_def beatFailed_def beatSucceeded_def outerCatch_def Let_def
        split: outcome.splits)

lemma beatLoop_trace:
  "\<exists>xs. trace (snd (beatLoop k ct bpm n s)) = trace s @ xs"
proof (induction k arbitrary: s)
  case 0
  show ?case by simp
next
  case (Suc k)
  obtain a s1 where d: "dispatchBeat ct bpm n s = (a, s1)" by (cases "dispatchBeat ct bpm n s")
  obtain xs where x: "trace s1 = trace s @ xs" using dispatchBeat_trace [of ct bpm n s] d by auto
  obtain ys where y: "trace (snd (beatLoop k ct bpm n s1)) = trace s1 @ ys" using Suc by blast
  show ?case using d x y by (cases a) auto
qed

lemma beatLoop_trace_first:
  assumes "schedulerCallback s = Some cb" and "nextBeatTime s < ct + scheduleAheadTime"
  shows "\<exists>xs. trace (snd (beatLoop (Suc k) ct bpm n s)) =
               trace s @ Beat (nextBeatTime s) (currentBeat s) bpm # xs"
proof -
  obtain a s1 where d: "dispatchBeat ct bpm n s = (a, s1)" by (cases "dispatchBeat ct bpm n s")
  obtain xs where x: "trace s1 = trace s @ Beat (nextBeatTime s) (currentBeat s) bpm # xs"
    using dispatchBeat_trace_first [OF assms(1), of ct bpm n] d by auto
  obtain ys where y: "trace (snd (beatLoop k ct bpm n s1)) = trace s1 @ ys"
    using beatLoop_trace by blast
  show ?thesis using d x y assms(2) by (cases a) auto
qed

lemma schedulerLoop_suspended:
  assumes "audioContext s = Some c" and "state c = Suspended"
      and "isRunning s" and "\<not> throttled s"
  shows "schedulerLoop bpm n s = rearm 50 (emit Resume (s\<lparr>lastUpdateTime := now s\<rparr>))"
  using assms by (simp add: schedulerLoop_def Let_def)

lemma schedulerLoop_running_trace_first:
  assumes "audioContext s = Some c" and "state c = Running"
      and "isRunning s" and "\<not> throttled s"
      and "schedulerCallback s = Some cb"
      and "nextBeatTime s < currentTime c + scheduleAheadTime"
  shows "\<exists>xs. trace (schedulerLoop bpm n s) =
               trace s @ Beat (nextBeatTime s) (currentBeat s) bpm # xs"
proof -
  let ?s1 = "s\<lparr>lastUpdateTime := now s\<rparr>"
  obtain a s2 where b: "beatLoop maxSchedulesPerIteration (currentTime c) bpm n ?s1 = (a, s2)"
    by (cases "beatLoop maxSchedulesPerIteration (currentTime c) bpm n ?s1")
  have "\<exists>xs. trace (snd (beatLoop (Suc 19) (currentTime c) bpm n ?s1)) =
               trace ?s1 @ Beat (nextBeatTime ?s1) (currentBeat ?s1) bpm # xs"
    by (rule beatLoop_trace_first [of _ cb]) (use assms in simp_all)
  then obtain xs where x: "trace s2 = trace s @ Beat (nextBeatTime s) (currentBeat s) bpm # xs"
    using b by (auto simp: maxSchedulesPerIteration_def)
  show ?thesis
    using assms(1-4) b x by (cases a) (simp_all add: schedulerLoop_def Let_def)
qed

section \<open>C1: a throwing callback and the beat grid\<close>

text \<open>
  A callback that throws a value which \<^verbatim>\<open>handleAudioError\<close> cannot log, \<^verbatim>\<open>null\<close> for
  one: the handler throws in its turn, the outer \<^verbatim>\<open>catch\<close> logs that \<^verbatim>\<open>TypeError\<close> and
  stops the scheduler. The tick ends there, whatever the error count was: the timeline
  is not advanced and no recovery timer is armed.
\<close>

lemma dispatchBeat_unloggable:
  assumes "schedulerCallback s = Some cb"
      and "cb (beatsScheduled (performanceStats s)) (nextBeatTime s) (currentBeat s) = ThrowsUnloggable"
  shows "fst (dispatchBeat ct bpm n s)"
        "\<not> isRunning (snd (dispatchBeat ct bpm n s))"
        "trace (snd (dispatchBeat ct bpm n s)) =
           trace s @ [Beat (nextBeatTime s) (currentBeat s) bpm, ErrLog]"
        "nextBeatTime (snd (dispatchBeat ct bpm n s)) = nextBeatTime s"
        "currentBeat (snd (dispatchBeat ct bpm n s)) = 1"
        "errorCount (snd (dispatchBeat ct bpm n s)) = 0"
        "recoveryTimeout (snd (dispatchBeat ct bpm n s)) = None"
        "set (timers (snd (dispatchBeat ct bpm n s))) \<subseteq> set (timers s)"
  using assms
  by (auto simp: dispatchBeat_def beatFailed_def outerCatch_def emit_def Let_def stop_def
        clearTimeout_def split: option.splits)

text \<open>
  A run with the callback \<open>throws_null_second\<close>: start at 120 bpm, then one tick when
  the audio clock reads 3 s. The first beat goes through, the second invocation throws
  \<^verbatim>\<open>null\<close>: the scheduler is stopped with \<open>nextBeatTime\<close> still at 1.7 s, and no timer
  is pending, although this was the first failure.
\<close>

lemma null_throw_example:
  "beats (trace (run [Elapse 10, AudioClock 3, Tick 120 4] (started throws_null_second))) =
     [(1.2, 1, 120), (1.7, 2, 120)] \<and>
   \<not> isRunning (run [Elapse 10, AudioClock 3, Tick 120 4] (started throws_null_second)) \<and>
   nextBeatTime (run [Elapse 10, AudioClock 3, Tick 120 4] (started throws_null_second)) = 1.7 \<and>
   recoveryTimeout (run [Elapse 10, AudioClock 3, Tick 120 4] (started throws_null_second)) = None \<and>
   timers (run [Elapse 10, AudioClock 3, Tick 120 4] (started throws_null_second)) = []"
  by (simp add: throws_null_second_def example_defs sched_defs Let_def beatLoop_unfold)





section \<open>C5: a tick against a suspended audio context\<close>

text \<open>
  C5, as amended. A tick that finds the audio context suspended dispatches no beat and
  leaves \<open>nextBeatTime\<close> and the beat counter as they are, in every case. What else it
  does depends on the two checks that come before the look at the context.
  \<^item> On a running scheduler, past the rate limit (a millisecond or more after the last
    tick or \<^verbatim>\<open>start\<close>), it asks the context to resume and re-arms the loop timer 50 ms
    ahead.
  \<^item> On a running scheduler inside the rate limit it only re-arms the loop timer, one
    millisecond ahead, and asks for nothing.
  \<^item> On a scheduler that is not running it does nothing.

  Once the context reports \<^verbatim>\<open>running\<close>, the next tick (at least a millisecond later,
  with the first beat inside the look-ahead window, at a nonzero tempo) dispatches first
  the beat that was pending, at the \<open>nextBeatTime\<close> computed before the suspension.
\<close>

theorem C5_suspended_tick:
  assumes "audioContext s = Some c" and "state c = Suspended"
  shows
   "beats (trace (schedulerLoop bpm n s)) = beats (trace s) \<and>
    nextBeatTime (schedulerLoop bpm n s) = nextBeatTime s \<and>
    currentBeat (schedulerLoop bpm n s) = currentBeat s \<and>
    (isRunning s \<and> \<not> throttled s \<longrightarrow>
       trace (schedulerLoop bpm n s) = trace s @ [Resume] \<and>
       timers (schedulerLoop bpm n s) =
         timers s @ [\<lparr>t_id = next_id s, t_kind = LoopTimer, t_due = real (now s) + 50\<rparr>] \<and>
       timerID (schedulerLoop bpm n s) = Some (next_id s) \<and>
       isRunning (schedulerLoop bpm n s)) \<and>
    (isRunning s \<and> throttled s \<longrightarrow>
       trace (schedulerLoop bpm n s) = trace s \<and>
       timers (schedulerLoop bpm n s) =
         timers s @ [\<lparr>t_id = next_id s, t_kind = LoopTimer, t_due = real (now s) + 1\<rparr>] \<and>
       timerID (schedulerLoop bpm n s) = Some (next_id s) \<and>
       isRunning (schedulerLoop bpm n s)) \<and>
    (\<not> isRunning s \<longrightarrow> schedulerLoop bpm n s = s) \<and>
    (isRunning s \<and> \<not> throttled s \<and> schedulerCallback s = Some cb \<and> 1 \<le> d \<and>
     nextBeatTime s < t + scheduleAheadTime \<and> bpm' \<noteq> 0 \<and> 0 < n' \<longrightarrow>
       (\<exists>rest. trace (run [Elapse d, CtxState Running, AudioClock t, Tick bpm' n']
                        (schedulerLoop bpm n s)) =
               trace s @ Resume # Beat (nextBeatTime s) (currentBeat s) bpm' # rest))"
proof (intro conjI impI)
  show "beats (trace (schedulerLoop bpm n s)) = beats (trace s)"
    using assms by (simp add: schedulerLoop_def Let_def)
  show "nextBeatTime (schedulerLoop bpm n s) = nextBeatTime s"
    using assms by (simp add: schedulerLoop_def Let_def)
  show "currentBeat (schedulerLoop bpm n s) = currentBeat s"
    using assms by (simp add: schedulerLoop_def Let_def)
next
  assume h: "isRunning s \<and> \<not> throttled s"
  then have e: "schedulerLoop bpm n s = rearm 50 (emit Resume (s\<lparr>lastUpdateTime := now s\<rparr>))"
    using assms by (simp add: schedulerLoop_suspended)
  show "trace (schedulerLoop bpm n s) = trace s @ [Resume]" by (simp add: e)
  show "timers (schedulerLoop bpm n s) =
         timers s @ [\<lparr>t_id = next_id s, t_kind = LoopTimer, t_due = real (now s) + 50\<rparr>]"
    by (simp add: e)
  show "timerID (schedulerLoop bpm n s) = Some (next_id s)" by (simp add: e)
  show "isRunning (schedulerLoop bpm n s)" using h by (simp add: e)
next
  assume h: "isRunning s \<and> throttled s"
  then have e: "schedulerLoop bpm n s = rearm minScheduleInterval s"
    by (simp add: schedulerLoop_def)
  show "trace (schedulerLoop bpm n s) = trace s" by (simp add: e)
  show "timers (schedulerLoop bpm n s) =
         timers s @ [\<lparr>t_id = next_id s, t_kind = LoopTimer, t_due = real (now s) + 1\<rparr>]"
    by (simp add: e minScheduleInterval_def)
  show "timerID (schedulerLoop bpm n s) = Some (next_id s)" by (simp add: e)
  show "isRunning (schedulerLoop bpm n s)" using h by (simp add: e)
next
  assume "\<not> isRunning s"
  then show "schedulerLoop bpm n s = s" by (simp add: schedulerLoop_def)
next
  assume h: "isRunning s \<and> \<not> throttled s \<and> schedulerCallback s = Some cb \<and> 1 \<le> d \<and>
             nextBeatTime s < t + scheduleAheadTime \<and> bpm' \<noteq> 0 \<and> 0 < n'"
  then have e: "schedulerLoop bpm n s = rearm 50 (emit Resume (s\<lparr>lastUpdateTime := now s\<rparr>))"
    using assms by (simp add: schedulerLoop_suspended)
  let ?s1 = "schedulerLoop bpm n s"
  let ?s4 = "run [Elapse d, CtxState Running, AudioClock t] ?s1"
  have f: "audioContext ?s4 = Some (c\<lparr>state := Running, currentTime := t\<rparr>)"
          "isRunning ?s4" "schedulerCallback ?s4 = Some cb"
          "nextBeatTime ?s4 = nextBeatTime s" "currentBeat ?s4 = currentBeat s"
          "trace ?s4 = trace s @ [Resume]" "lastUpdateTime ?s4 = now s" "now ?s4 = now s + d"
    using assms h by (simp_all add: e Let_def)
  have nt: "\<not> throttled ?s4"
    using h f(7,8) by (simp add: throttled_def minScheduleInterval_def)
  have "\<exists>xs. trace (schedulerLoop bpm' n' ?s4) =
               trace ?s4 @ Beat (nextBeatTime ?s4) (currentBeat ?s4) bpm' # xs"
    by (rule schedulerLoop_running_trace_first [OF f(1) _ f(2) nt f(3)]) (use h f in simp_all)
  then show "\<exists>rest. trace (run [Elapse d, CtxState Running, AudioClock t, Tick bpm' n']
                        (schedulerLoop bpm n s)) =
               trace s @ Resume # Beat (nextBeatTime s) (currentBeat s) bpm' # rest"
    using f(4,5,6) by simp
qed

text \<open>
  The cases at concrete schedulers. \<open>susp0\<close> was started ten milliseconds ago: its tick
  asks for a resume and re-arms at 1060 ms, and the tick after the context is back
  dispatches beat 1 at 1.2 s. \<open>susp_now\<close> was started in this very millisecond: its tick
  re-arms at 1001 ms and asks for nothing.
\<close>

theorem C5_suspended_tick_witness:
  "beats (trace (schedulerLoop 120 4 susp0)) = [] \<and>
   nextBeatTime (schedulerLoop 120 4 susp0) = 1.2 \<and>
   trace (schedulerLoop 120 4 susp0) = [Resume] \<and>
   timers (schedulerLoop 120 4 susp0) =
     [\<lparr>t_id = 1, t_kind = LoopTimer, t_due = 1001\<rparr>,
      \<lparr>t_id = 2, t_kind = LoopTimer, t_due = 1060\<rparr>] \<and>
   (\<exists>rest. trace (run [Elapse 50, CtxState Running, AudioClock 1.1, Tick 120 4]
                    (schedulerLoop 120 4 susp0)) = Resume # Beat 1.2 1 120 # rest) \<and>
   beats (trace (schedulerLoop 120 4 susp_now)) = [] \<and>
   nextBeatTime (schedulerLoop 120 4 susp_now) = 1.2 \<and>
   timerID (schedulerLoop 120 4 susp_now) = Some 2 \<and>
   schedulerLoop 120 4 (stop susp0) = stop susp0"
proof -
  have v: "audioContext susp0 = Some \<lparr>state = Suspended, currentTime = 1\<rparr>"
          "isRunning susp0" "\<not> throttled susp0" "schedulerCallback susp0 = Some always_returns"
          "nextBeatTime susp0 = 1.2" "currentBeat susp0 = 1" "trace susp0 = []"
          "timers susp0 = [\<lparr>t_id = 1, t_kind = LoopTimer, t_due = 1001\<rparr>]"
          "next_id susp0 = 2" "now susp0 = 1010"
    by (simp_all add: example_defs sched_defs Let_def)
  have u: "audioContext susp_now = Some \<lparr>state = Suspended, currentTime = 1\<rparr>"
          "isRunning susp_now" "throttled susp_now"
          "nextBeatTime susp_now = 1.2" "trace susp_now = []" "next_id susp_now = 2"
    by (simp_all add: susp_now_def example_defs sched_defs Let_def)
  have k: "audioContext (stop susp0) = Some \<lparr>state = Suspended, currentTime = 1\<rparr>"
          "\<not> isRunning (stop susp0)"
    by (simp_all add: v)
  show ?thesis
    using C5_suspended_tick [OF v(1), of 120 4 always_returns 50 "1.1" 120 4]
          C5_suspended_tick [OF u(1), of 120 4]
          C5_suspended_tick [OF k(1), of 120 4]
          v u k(2)
    by (simp add: scheduleAheadTime_def)
qed

text \<open>
  C5 as stated has every tick on a suspended context ask for a resume and re-arm after
  50 ms. The tick that \<^verbatim>\<open>start\<close> runs comes in the same millisecond as \<^verbatim>\<open>start\<close> sets
  \<open>lastUpdateTime\<close>, so the rate limit sends it away before it looks at the context:
  started on a suspended context, the scheduler has asked for no resume and its one
  timer is due 1 ms later, not 50 ms. The same holds for a tick on \<open>susp_now\<close>.
\<close>

theorem C5_throttled_tick_counterexample:
  "audioContext (snd (start (Some always_returns) 0 120 4 ready_susp)) =
     Some \<lparr>state = Suspended, currentTime = 1\<rparr> \<and>
   isRunning (snd (start (Some always_returns) 0 120 4 ready_susp)) \<and>
   trace (snd (start (Some always_returns) 0 120 4 ready_susp)) = [] \<and>
   timers (snd (start (Some always_returns) 0 120 4 ready_susp)) =
     [\<lparr>t_id = 1, t_kind = LoopTimer, t_due = 1001\<rparr>] \<and>
   audioContext susp_now = Some \<lparr>state = Suspended, currentTime = 1\<rparr> \<and>
   isRunning susp_now \<and>
   trace (schedulerLoop 120 4 susp_now) = [] \<and>
   timers (schedulerLoop 120 4 susp_now) =
     [\<lparr>t_id = 1, t_kind = LoopTimer, t_due = 1001\<rparr>,
      \<lparr>t_id = 2, t_kind = LoopTimer, t_due = 1001\<rparr>]"
  by (simp add: ready_susp_def susp_now_def example_defs sched_defs Let_def)

section \<open>C8: starting twice, stopping twice\<close>

lemma start_running:
  assumes "audioContext s = Some c" and "isRunning s"
  shows "start cb late bpm n s = (True, s)"
  using assms by (simp add: start_def)

lemma start_leaves_running:
  assumes "audioContext s = Some c" and "state c \<noteq> Closed"
  shows "isRunning (snd (start (Some f) late bpm n s)) \<and>
         audioContext (snd (start (Some f) late bpm n s)) = Some c"
proof (cases "isRunning s")
  case True
  then show ?thesis using assms by (simp add: start_def)
next
  case False
  show ?thesis
    using assms False
    by (cases "state c")
       (simp_all add: start_def schedulerLoop_def Let_def beatLoop_not_due scheduleAheadTime_def)
qed

lemma stop_stop: "stop (stop s) = stop s"
  by (simp add: stop_def clearTimeout_def Let_def split: option.splits)

text \<open>
  C8. For an initialised scheduler: \<^verbatim>\<open>start\<close> on a running scheduler returns
  \<^verbatim>\<open>true\<close> and changes nothing, neither the timers nor \<open>nextBeatTime\<close> nor the beat
  counter; hence, the context not being closed, a second \<^verbatim>\<open>start\<close> right after a first
  one returns \<^verbatim>\<open>true\<close> and leaves the state that the first one produced.
  \<^verbatim>\<open>scheduler.stop()\<close> is idempotent, and \<^verbatim>\<open>stopMetronome\<close> on a metronome that is not
  running returns \<^verbatim>\<open>false\<close> and changes nothing.
\<close>

theorem C8_start_stop_idempotent:
  assumes "audioContext s = Some c"
  shows
    "(isRunning s \<longrightarrow> start cb late bpm n s = (True, s)) \<and>
     (state c \<noteq> Closed \<longrightarrow>
        start (Some g) late' bpm' n' (snd (start (Some f) late bpm n s)) =
          (True, snd (start (Some f) late bpm n s))) \<and>
     stop (stop s) = stop s \<and>
     (\<not> st_isRunning w \<longrightarrow> stopMetronome w = (False, w))"
proof (intro conjI impI)
  assume "isRunning s"
  then show "start cb late bpm n s = (True, s)" using assms by (rule start_running [rotated])
next
  assume "state c \<noteq> Closed"
  then have "isRunning (snd (start (Some f) late bpm n s)) \<and>
             audioContext (snd (start (Some f) late bpm n s)) = Some c"
    using assms by (simp add: start_leaves_running)
  then show "start (Some g) late' bpm' n' (snd (start (Some f) late bpm n s)) =
               (True, snd (start (Some f) late bpm n s))"
    by (simp add: start_running)
next
  show "stop (stop s) = stop s" by (rule stop_stop)
next
  assume "\<not> st_isRunning w"
  then show "stopMetronome w = (False, w)" by (simp add: stopMetronome_def)
qed



theorem C8_start_stop_idempotent_witness:
  "start (Some always_throws) 5 90 3 (started always_returns) = (True, started always_returns) \<and>
   start (Some always_throws) 5 90 3 (snd (start (Some always_returns) 0 120 4 ready0)) =
     (True, snd (start (Some always_returns) 0 120 4 ready0)) \<and>
   stopMetronome (world0 1000) = (False, world0 1000)"
proof -
  have a: "audioContext (started always_returns) = Some \<lparr>state = Running, currentTime = 1\<rparr>"
    by (simp add: example_defs sched_defs Let_def)
  have b: "isRunning (started always_returns)"
    by (simp add: example_defs sched_defs Let_def)
  have c: "audioContext ready0 = Some \<lparr>state = Running, currentTime = 1\<rparr>"
    by (simp add: example_defs sched_defs Let_def)
  have d: "\<not> st_isRunning (world0 1000)"
    by (simp add: world0_def)
  show ?thesis
    using C8_start_stop_idempotent [OF a, where cb = "Some always_throws" and late = 5 and bpm = 90
            and n = 3 and w = "world0 1000"]
          C8_start_stop_idempotent [OF c, where g = always_throws and late' = 5 and bpm' = 90
            and n' = 3 and f = always_returns and late = 0 and bpm = 120 and n = 4
            and w = "world0 1000"]
          b d
    by simp
qed

section \<open>C9: recovery after the error threshold\<close>

lemma recoveryCallback_open:
  assumes "audioContext s = Some c"
  shows "recoveryCallback fresh s = s\<lparr>errorCount := 0, recoveryTimeout := None\<rparr>"
  using assms by (simp add: recoveryCallback_def init_def Let_def)

lemma recoveryCallback_frame:
  "errorCount (recoveryCallback fresh s) = 0"
  "recoveryTimeout (recoveryCallback fresh s) = None"
  "isRunning (recoveryCallback fresh s) = isRunning s"
  "timers (recoveryCallback fresh s) = timers s"
  "timerID (recoveryCallback fresh s) = timerID s"
  "schedulerCallback (recoveryCallback fresh s) = schedulerCallback s"
  "beats (trace (recoveryCallback fresh s)) = beats (trace s)"
  by (simp_all add: recoveryCallback_def init_def emit_def Let_def split: option.splits)

lemma recoveryCallback_creates:
  assumes "audioContext s = None"
  shows "audioContext (recoveryCallback (Some c) s) = Some c"
        "trace (recoveryCallback (Some c) s) =
           trace s @ NewContext # (if state c = Suspended then [Resume] else [])"
        "performanceStats (recoveryCallback (Some c) s) = perf0"
  using assms by (simp_all add: recoveryCallback_def init_def emit_def Let_def)

lemma stop_timers_fresh:
  assumes "list_all (\<lambda>t. t_id t < next_id s) (timers s)"
  shows "list_all (\<lambda>t. t_id t < next_id s) (timers (stop s))"
  using assms
  by (auto simp: stop_def clearTimeout_def Let_def list_all_iff split: option.splits)

lemma find_fresh_append:
  assumes "list_all (\<lambda>t. t_id t < i) ts" and "t_id x = i"
  shows "find (\<lambda>t. t_id t = i) (ts @ [x]) = Some x"
  using assms by (induction ts) auto

text \<open>
  What recovery does. The dispatch that reaches the error threshold stops the scheduler
  and arms one recovery timer for 1000 ms; the host runs its callback no earlier. The
  callback clears \<open>errorCount\<close> and the timer handle. It leaves \<open>isRunning\<close>, the callback
  slot and the timers alone and dispatches no beat: it does not restart the scheduler.
  When the scheduler references no audio context, it creates one (and asks it to resume
  when it comes up suspended); when creating one fails, both \<^verbatim>\<open>init\<close> and the recovery
  body hand the error to the error manager, and the scheduler stays as it is, without a
  context. When the scheduler references a context, in whatever state, the callback
  does nothing but clear the two fields.
\<close>

lemma recovery_policy:
  "(maxAllowedErrors \<le> Suc (errorCount s) \<longrightarrow>
      beatFailed False bpm n s =
        (True, attemptRecovery (stop (emit ErrLog (s\<lparr>errorCount := Suc (errorCount s)\<rparr>))))) \<and>
   \<not> isRunning (attemptRecovery (stop s)) \<and>
   recoveryTimeout (attemptRecovery (stop s)) = Some (next_id s) \<and>
   timers (attemptRecovery (stop s)) =
     timers (stop s) @ [\<lparr>t_id = next_id s, t_kind = RecoveryTimer, t_due = real (now s) + 1000\<rparr>] \<and>
   (list_all (\<lambda>t. t_id t < next_id s) (timers s) \<longrightarrow>
      fire (next_id s) fresh bpm n ((attemptRecovery (stop s))\<lparr>now := now s + d\<rparr>) =
        (if d < 1000 then (attemptRecovery (stop s))\<lparr>now := now s + d\<rparr>
         else recoveryCallback fresh
                (clearTimeout (next_id s) ((attemptRecovery (stop s))\<lparr>now := now s + d\<rparr>)))) \<and>
   errorCount (recoveryCallback fresh s) = 0 \<and>
   recoveryTimeout (recoveryCallback fresh s) = None \<and>
   isRunning (recoveryCallback fresh s) = isRunning s \<and>
   timers (recoveryCallback fresh s) = timers s \<and>
   timerID (recoveryCallback fresh s) = timerID s \<and>
   schedulerCallback (recoveryCallback fresh s) = schedulerCallback s \<and>
   beats (trace (recoveryCallback fresh s)) = beats (trace s) \<and>
   (audioContext s = Some c \<longrightarrow>
      recoveryCallback fresh s = s\<lparr>errorCount := 0, recoveryTimeout := None\<rparr>) \<and>
   (audioContext s = None \<and> fresh = Some c' \<longrightarrow>
      audioContext (recoveryCallback fresh s) = Some c' \<and>
      trace (recoveryCallback fresh s) =
        trace s @ NewContext # (if state c' = Suspended then [Resume] else [])) \<and>
   (audioContext s = None \<and> fresh = None \<longrightarrow>
      trace (recoveryCallback fresh s) = trace s @ [ErrLog, ErrLog] \<and>
      audioContext (recoveryCallback fresh s) = None)"
proof (intro conjI impI)
  assume "maxAllowedErrors \<le> Suc (errorCount s)"
  then show "beatFailed False bpm n s =
        (True, attemptRecovery (stop (emit ErrLog (s\<lparr>errorCount := Suc (errorCount s)\<rparr>))))"
    by (simp add: beatFailed_def Let_def)
next
  show "\<not> isRunning (attemptRecovery (stop s))" by simp
  show "recoveryTimeout (attemptRecovery (stop s)) = Some (next_id s)"
    by (simp add: attemptRecovery_def setTimeout_def)
  show t: "timers (attemptRecovery (stop s)) =
     timers (stop s) @ [\<lparr>t_id = next_id s, t_kind = RecoveryTimer, t_due = real (now s) + 1000\<rparr>]"
    by (simp add: attemptRecovery_def setTimeout_def)
  show "errorCount (recoveryCallback fresh s) = 0"
       "recoveryTimeout (recoveryCallback fresh s) = None"
       "isRunning (recoveryCallback fresh s) = isRunning s"
       "timers (recoveryCallback fresh s) = timers s"
       "timerID (recoveryCallback fresh s) = timerID s"
       "schedulerCallback (recoveryCallback fresh s) = schedulerCallback s"
       "beats (trace (recoveryCallback fresh s)) = beats (trace s)"
    by (rule recoveryCallback_frame)+
  {
    assume fr: "list_all (\<lambda>t. t_id t < next_id s) (timers s)"
    let ?a = "(attemptRecovery (stop s))\<lparr>now := now s + d\<rparr>"
    let ?x = "\<lparr>t_id = next_id s, t_kind = RecoveryTimer, t_due = real (now s) + 1000\<rparr>"
    have "find (\<lambda>t. t_id t = next_id s) (timers ?a) = Some ?x"
      using stop_timers_fresh [OF fr] by (simp add: t find_fresh_append)
    then show "fire (next_id s) fresh bpm n ?a =
        (if d < 1000 then ?a else recoveryCallback fresh (clearTimeout (next_id s) ?a))"
      by (simp add: fire_def due_timer_def)
  }
next
  assume "audioContext s = Some c"
  then show "recoveryCallback fresh s = s\<lparr>errorCount := 0, recoveryTimeout := None\<rparr>"
    by (rule recoveryCallback_open)
next
  assume h: "audioContext s = None \<and> fresh = Some c'"
  then show "audioContext (recoveryCallback fresh s) = Some c'"
    by (simp add: recoveryCallback_creates)
  from h show "trace (recoveryCallback fresh s) =
        trace s @ NewContext # (if state c' = Suspended then [Resume] else [])"
    by (simp add: recoveryCallback_creates)
next
  assume h: "audioContext s = None \<and> fresh = None"
  then show "trace (recoveryCallback fresh s) = trace s @ [ErrLog, ErrLog]"
    by (simp add: recoveryCallback_def init_def emit_def Let_def)
  from h show "audioContext (recoveryCallback fresh s) = None"
    by (simp add: recoveryCallback_def init_def emit_def Let_def)
qed

text \<open>
  The policy at concrete schedulers: the third failure of a started scheduler arms the
  timer with handle 2, which the host does not run 999 ms later; with a running context
  the recovery body only clears the two fields; without a context, and with no context
  to be had, it logs twice and gives up.
\<close>

lemma recovery_policy_example:
  "fst (beatFailed False 120 4 ((started always_throws)\<lparr>errorCount := 2\<rparr>)) \<and>
   recoveryTimeout (attemptRecovery (stop (started always_throws))) = Some 2 \<and>
   fire 2 None 120 4 ((attemptRecovery (stop (started always_throws)))\<lparr>now := 1000 + 999\<rparr>) =
     (attemptRecovery (stop (started always_throws)))\<lparr>now := 1000 + 999\<rparr> \<and>
   recoveryCallback None (started always_throws) =
     (started always_throws)\<lparr>errorCount := 0, recoveryTimeout := None\<rparr> \<and>
   trace (recoveryCallback None (scheduler0 0)) = [ErrLog, ErrLog] \<and>
   audioContext (recoveryCallback None (scheduler0 0)) = None"
proof -
  have v: "audioContext (started always_throws) = Some \<lparr>state = Running, currentTime = 1\<rparr>"
          "next_id (started always_throws) = 2" "now (started always_throws) = 1000"
          "list_all (\<lambda>t. t_id t < next_id (started always_throws)) (timers (started always_throws))"
    by (simp_all add: example_defs sched_defs Let_def)
  have u: "audioContext (scheduler0 0) = None" "trace (scheduler0 0) = []"
    by (simp_all add: scheduler0_def)
  show ?thesis
    using recovery_policy [where s = "(started always_throws)\<lparr>errorCount := 2\<rparr>"
            and bpm = 120 and n = 4]
          recovery_policy [where s = "started always_throws" and fresh = None and bpm = 120
            and n = 4 and d = 999 and c = "\<lparr>state = Running, currentTime = 1\<rparr>"]
          recovery_policy [where s = "scheduler0 0" and fresh = None]
          v u
    by (simp add: maxAllowedErrors_def)
qed

text \<open>
  C9 fails on the code where it says that recovery reinitialises the clock when it is
  closed. The recovery body does test for a closed context
  (\<^verbatim>\<open>if (!this.audioContext || this.audioContext.state === 'closed') await this.init()\<close>,
  under the comment that a closed audio context is initialised anew), but \<^verbatim>\<open>init()\<close>
  begins with \<^verbatim>\<open>if (this.audioContext) return\<close>: for a closed context that the
  scheduler still references it returns at once, and no context is created.

  \<open>closed_pending\<close> is such a scheduler: it stopped after three failures, its recovery
  timer (handle 2) is due, and its context has been closed, the \<^verbatim>\<open>statechange\<close> event
  still in the host's queue. Running the timer leaves the closed context in place and
  creates nothing, although a new context was to be had; the only effect is that
  \<open>errorCount\<close> and the timer handle are cleared. When the event is delivered
  afterwards, the handler resets the scheduler, which is left without a context and
  without a timer. When the event is delivered first, the reset clears the recovery
  timer, and recovery does not run at all. From the same scheduler with the reference
  to the context dropped and the timer kept, the timer does create the context.
\<close>

theorem C9_closed_context_not_recreated:
  "\<not> isRunning closed_pending \<and> recoveryTimeout closed_pending = Some 2 \<and>
   timers closed_pending = [\<lparr>t_id = 2, t_kind = RecoveryTimer, t_due = 2010\<rparr>] \<and>
   now closed_pending = 2010 \<and>
   audioContext closed_pending = Some \<lparr>state = Closed, currentTime = 3\<rparr> \<and>
   audioContext (fire 2 (Some fresh_ctx) 120 4 closed_pending) =
     Some \<lparr>state = Closed, currentTime = 3\<rparr> \<and>
   trace (fire 2 (Some fresh_ctx) 120 4 closed_pending) = trace closed_pending \<and>
   errorCount (fire 2 (Some fresh_ctx) 120 4 closed_pending) = 0 \<and>
   recoveryTimeout (fire 2 (Some fresh_ctx) 120 4 closed_pending) = None \<and>
   timers (fire 2 (Some fresh_ctx) 120 4 closed_pending) = [] \<and>
   audioContext (step StateChange (fire 2 (Some fresh_ctx) 120 4 closed_pending)) = None \<and>
   timers (step StateChange (fire 2 (Some fresh_ctx) 120 4 closed_pending)) = [] \<and>
   timers (step StateChange closed_pending) = [] \<and>
   audioContext (fire 2 (Some fresh_ctx) 120 4 (step StateChange closed_pending)) = None \<and>
   audioContext (fire 2 (Some fresh_ctx) 120 4 (closed_pending\<lparr>audioContext := None\<rparr>)) =
     Some fresh_ctx \<and>
   trace (fire 2 (Some fresh_ctx) 120 4 (closed_pending\<lparr>audioContext := None\<rparr>)) =
     trace closed_pending @ [NewContext]"
  by (simp add: closed_pending_def fresh_ctx_def c1_run_def example_defs sched_defs Let_def
        beatLoop_unfold fire_def due_timer_def recoveryCallback_def init_def)

section \<open>C4: the tempo setters\<close>

lemma as_double_double: "is_double r \<Longrightarrow> as_double (Fin r) = Fin r"
  by (simp add: is_double_def)

lemma clamp_range:
  assumes "lo \<le> hi"
  shows "lo \<le> clamp v lo hi \<and> clamp v lo hi \<le> hi"
  using assms by (cases v) auto

text \<open>
  A few doubles: one tenth, and what \<^verbatim>\<open>Math.round(x * 10) / 10\<close> makes of some tempos.
  The double for 120.1 lies below 120.1, so its distance from 120 is less than the
  double for 0.1, which lies above one tenth; the double for 60.1 lies above 60.1.
\<close>

lemma fl_tenth: "fl (1 / 10) = Fin (3602879701896397 / 36028797018963968)"
  by (simp add: double_defs)

lemma fl_examples:
  "fl 40 = Fin 40" "fl 300 = Fin 300" "fl 1000 = Fin 1000" "fl 120 = Fin 120" "fl 60 = Fin 60"
  "fl (361 / 4) = Fin (361 / 4)" "fl (961 / 8) = Fin (961 / 8)"
  "fl (1201 / 10) = Fin (4225643087868723 / 35184372088832)"
  "fl (1807 / 20) = Fin (3178908018225971 / 35184372088832)"
  "fl (601 / 10) = Fin (8458323050155213 / 140737488355328)"
  by (simp_all add: double_defs)

lemma double_examples:
  "is_double 40" "is_double 300" "is_double 1000" "is_double 120" "is_double 90.25"
  "is_double 120.125" "\<not> is_double 120.1"
  by (simp_all add: is_double_def fl_examples)

lemma round10_examples:
  "round10 (Fin 120.125) = Fin (4225643087868723 / 35184372088832)"
  "round10 (Fin 90.25) = Fin (6354297599243059 / 70368744177664)"
  "round10 (Fin (4225643087868723 / 35184372088832)) = Fin (4225643087868723 / 35184372088832)"
  "round10 (Fin (3178908018225971 / 35184372088832)) = Fin (3180667236830413 / 35184372088832)"
  "round10 (Fin (8458323050155213 / 140737488355328)) = Fin (8458323050155213 / 140737488355328)"
  by (simp_all add: double_defs)

lemma same_value_examples:
  "js_lt (js_abs (js_sub (Fin 120) (Fin (4225643087868723 / 35184372088832)))) (fl (1 / 10))"
  "\<not> js_lt (js_abs (js_sub (Fin 120) (Fin (6354297599243059 / 70368744177664)))) (fl (1 / 10))"
  "\<not> js_lt (js_abs (js_sub (Fin 120) (Fin (3180667236830413 / 35184372088832)))) (fl (1 / 10))"
  "\<not> js_lt (js_abs (js_sub (Fin 60) (Fin (8458323050155213 / 140737488355328)))) (fl (1 / 10))"
  by (simp_all add: fl_tenth) (simp_all add: double_defs)

text \<open>
  The setter at arguments written as decimal numerals, which stand for the JavaScript
  literals of the same spelling. From 120, \<^verbatim>\<open>setBPM(120.1)\<close> returns \<^verbatim>\<open>true\<close> and changes
  nothing, and \<^verbatim>\<open>setBPM(90.35)\<close> stores the double for 90.4; from 60, \<^verbatim>\<open>setBPM(60.1)\<close>
  stores the double for 60.1.
\<close>

lemma setBPM_literal_examples:
  "setBPM CONFIG (Num (Fin 120.1)) (world0 0) = (True, world0 0)"
  "fst (setBPM CONFIG (Num (Fin 90.35)) (world0 0))"
  "st_bpm (snd (setBPM CONFIG (Num (Fin 90.35)) (world0 0))) =
     Fin (3180667236830413 / 35184372088832)"
  "st_bpm (snd (setBPM CONFIG (Num (Fin 60.1)) ((world0 0)\<lparr>st_bpm := Fin 60\<rparr>))) =
     Fin (8458323050155213 / 140737488355328)"
  by (simp_all add: setBPM_def CONFIG_def world0_def js_gt_def emit_def Let_def
        fl_examples round10_examples same_value_examples del: round10.simps js_sub.simps)

text \<open>
  C4, as amended. The module-level \<^verbatim>\<open>setBPM\<close> does not clamp. An argument that is not a
  number, or a number below \<open>minBPM\<close> or above \<open>maxBPM\<close>, is rejected: the function
  returns \<^verbatim>\<open>false\<close> and nothing changes but the error log. A finite number in range is
  accepted: the function returns \<^verbatim>\<open>true\<close>, and it stores the number rounded to one
  decimal unless that differs from the stored tempo by less than 0.1, as doubles
  compute it. The class method \<^verbatim>\<open>Metronome.setBPM\<close> clamps: with nonzero bounds in
  order, the tempo it stores lies in \<open>[minBPM, maxBPM]\<close>, and an argument at or beyond a
  bound gives that bound.
\<close>

theorem C4_tempo_setters:
  "setBPM cfg NonNumber w = (False, emit ErrLog w) \<and>
   (is_double (minBPM cfg) \<and> is_double (maxBPM cfg) \<and> as_double x = x \<and>
    (js_lt x (Fin (minBPM cfg)) \<or> js_gt x (Fin (maxBPM cfg))) \<longrightarrow>
      setBPM cfg (Num x) w = (False, emit ErrLog w)) \<and>
   st_bpm (emit ErrLog w) = st_bpm w \<and>
   (is_double (minBPM cfg) \<and> is_double (maxBPM cfg) \<and> is_double r \<and>
    minBPM cfg \<le> r \<and> r \<le> maxBPM cfg \<and> st_bpm w = Fin b \<and> is_double b \<longrightarrow>
      fst (setBPM cfg (Num (Fin r)) w) \<and>
      st_bpm (snd (setBPM cfg (Num (Fin r)) w)) =
        (if js_lt (js_abs (js_sub (Fin b) (round10 (Fin r)))) (fl (1 / 10))
         then Fin b else round10 (Fin r))) \<and>
   (minBPM cfg \<noteq> 0 \<and> maxBPM cfg \<noteq> 0 \<and> minBPM cfg \<le> maxBPM cfg \<longrightarrow>
      minBPM cfg \<le> fst (Metronome_setBPM cfg v w) \<and>
      fst (Metronome_setBPM cfg v w) \<le> maxBPM cfg \<and>
      st_bpm (snd (Metronome_setBPM cfg v w)) = Fin (fst (Metronome_setBPM cfg v w)) \<and>
      (maxBPM cfg \<le> r \<longrightarrow> fst (Metronome_setBPM cfg (Fin r) w) = maxBPM cfg) \<and>
      (r \<le> minBPM cfg \<longrightarrow> fst (Metronome_setBPM cfg (Fin r) w) = minBPM cfg))"
proof (intro conjI impI)
  show "setBPM cfg NonNumber w = (False, emit ErrLog w)" by (simp add: setBPM_def)
  show "st_bpm (emit ErrLog w) = st_bpm w" by (simp add: emit_def)
next
  assume "is_double (minBPM cfg) \<and> is_double (maxBPM cfg) \<and> as_double x = x \<and>
          (js_lt x (Fin (minBPM cfg)) \<or> js_gt x (Fin (maxBPM cfg)))"
  then show "setBPM cfg (Num x) w = (False, emit ErrLog w)"
    by (auto simp: setBPM_def is_double_def Let_def)
next
  assume h: "is_double (minBPM cfg) \<and> is_double (maxBPM cfg) \<and> is_double r \<and>
             minBPM cfg \<le> r \<and> r \<le> maxBPM cfg \<and> st_bpm w = Fin b \<and> is_double b"
  then have d: "fl (minBPM cfg) = Fin (minBPM cfg)" "fl (maxBPM cfg) = Fin (maxBPM cfg)"
               "as_double (Fin r) = Fin r" "as_double (Fin b) = Fin b"
    by (simp_all add: is_double_def)
  define c where "c = round10 (Fin r)"
  define same where "same = js_lt (js_abs (js_sub (Fin b) c)) (fl (1 / 10))"
  have e: "setBPM cfg (Num (Fin r)) w =
             (if same then (True, w)
              else (True, emit (Emit BpmChanged)
                      (if st_isRunning w then snd (updateInterval (w\<lparr>st_bpm := c\<rparr>))
                       else w\<lparr>st_bpm := c\<rparr>)))"
    using h unfolding setBPM_def c_def same_def Let_def
    by (simp add: d js_gt_def del: as_double.simps)
  show "fst (setBPM cfg (Num (Fin r)) w)" by (simp add: e)
  have "st_bpm (snd (setBPM cfg (Num (Fin r)) w)) = (if same then st_bpm w else c)"
    by (simp add: e updateInterval_def emit_def split: option.splits)
  then show "st_bpm (snd (setBPM cfg (Num (Fin r)) w)) =
        (if js_lt (js_abs (js_sub (Fin b) (round10 (Fin r)))) (fl (1 / 10))
         then Fin b else round10 (Fin r))"
    using h by (simp add: same_def c_def)
next
  assume h: "minBPM cfg \<noteq> 0 \<and> maxBPM cfg \<noteq> 0 \<and> minBPM cfg \<le> maxBPM cfg"
  then show "minBPM cfg \<le> fst (Metronome_setBPM cfg v w)"
    using clamp_range [of "minBPM cfg" "maxBPM cfg" v]
    by (simp add: Metronome_setBPM_def or_default_def Let_def)
  from h show "fst (Metronome_setBPM cfg v w) \<le> maxBPM cfg"
    using clamp_range [of "minBPM cfg" "maxBPM cfg" v]
    by (simp add: Metronome_setBPM_def or_default_def Let_def)
  show "st_bpm (snd (Metronome_setBPM cfg v w)) = Fin (fst (Metronome_setBPM cfg v w))"
    by (simp add: Metronome_setBPM_def Let_def)
  {
    assume "maxBPM cfg \<le> r"
    with h show "fst (Metronome_setBPM cfg (Fin r) w) = maxBPM cfg"
      by (simp add: Metronome_setBPM_def or_default_def Let_def)
  }
  {
    assume "r \<le> minBPM cfg"
    with h show "fst (Metronome_setBPM cfg (Fin r) w) = minBPM cfg"
      by (simp add: Metronome_setBPM_def or_default_def Let_def)
  }
qed

text \<open>
  With the shipped configuration (40 to 300) and the initial state (120 bpm):
  \<^verbatim>\<open>setBPM(1000)\<close> is rejected; \<^verbatim>\<open>setBPM(90.25)\<close> stores the double for 90.3;
  \<^verbatim>\<open>setBPM(120.125)\<close> returns \<^verbatim>\<open>true\<close> and leaves the tempo at 120, the double for 120.1
  being less than 0.1 away from it; and \<^verbatim>\<open>Metronome.setBPM(1000)\<close> stores 300.
\<close>

theorem C4_tempo_setters_witness:
  "setBPM CONFIG (Num (Fin 1000)) (world0 0) = (False, emit ErrLog (world0 0)) \<and>
   fst (setBPM CONFIG (Num (Fin 90.25)) (world0 0)) \<and>
   st_bpm (snd (setBPM CONFIG (Num (Fin 90.25)) (world0 0))) =
     Fin (6354297599243059 / 70368744177664) \<and>
   fst (setBPM CONFIG (Num (Fin 120.125)) (world0 0)) \<and>
   st_bpm (snd (setBPM CONFIG (Num (Fin 120.125)) (world0 0))) = Fin 120 \<and>
   fst (Metronome_setBPM CONFIG (Fin 1000) (world0 0)) = 300 \<and>
   st_bpm (snd (Metronome_setBPM CONFIG (Fin 1000) (world0 0))) = Fin 300"
proof -
  have m: "minBPM CONFIG = 40" "maxBPM CONFIG = 300" by (simp_all add: CONFIG_def)
  have a: "as_double (Fin 1000) = Fin 1000"
          "js_lt (Fin 1000) (Fin (minBPM CONFIG)) \<or> js_gt (Fin 1000) (Fin (maxBPM CONFIG))"
    using double_examples(3) by (simp_all add: is_double_def m js_gt_def)
  have c: "minBPM CONFIG \<noteq> 0 \<and> maxBPM CONFIG \<noteq> 0 \<and> minBPM CONFIG \<le> maxBPM CONFIG"
          "maxBPM CONFIG \<le> 1000"
    by (simp_all add: m)
  have d: "st_bpm (world0 0) = Fin 120" by (simp add: world0_def)
  show ?thesis
    using C4_tempo_setters [where cfg = CONFIG and x = "Fin 1000" and w = "world0 0"
            and r = "90.25" and v = "Fin 1000" and b = 120]
          C4_tempo_setters [where cfg = CONFIG and w = "world0 0" and r = "120.125" and b = 120]
          C4_tempo_setters [where cfg = CONFIG and w = "world0 0" and r = 1000 and v = "Fin 1000"]
          a c d double_examples(1,2,4,5,6) same_value_examples(1,2) round10_examples(1,2)
    by (simp add: m del: js_sub.simps)
qed

text \<open>
  C4 as stated fails for the module-level \<^verbatim>\<open>setBPM\<close>: with \<open>maxBPM = 300\<close>,
  \<^verbatim>\<open>setBPM(1000)\<close> returns \<^verbatim>\<open>false\<close> and the tempo stays 120, it does not become 300.
  And \<^verbatim>\<open>NaN\<close> passes both comparisons of the range check: \<^verbatim>\<open>setBPM(NaN)\<close> returns
  \<^verbatim>\<open>true\<close> and stores \<^verbatim>\<open>NaN\<close>, while \<^verbatim>\<open>Metronome.setBPM(NaN)\<close> stores \<open>minBPM\<close>.
\<close>

theorem C4_module_setter_counterexample:
  "fst (setBPM CONFIG (Num (Fin 1000)) (world0 0)) = False \<and>
   st_bpm (snd (setBPM CONFIG (Num (Fin 1000)) (world0 0))) = Fin 120 \<and>
   st_bpm (snd (setBPM CONFIG (Num (Fin 1000)) (world0 0))) \<noteq> Fin 300 \<and>
   fst (setBPM CONFIG (Num NaN) (world0 0)) = True \<and>
   st_bpm (snd (setBPM CONFIG (Num NaN) (world0 0))) = NaN \<and>
   fst (Metronome_setBPM CONFIG NaN (world0 0)) = 40"
proof -
  show ?thesis
    by (simp add: setBPM_def Metronome_setBPM_def CONFIG_def world0_def js_gt_def emit_def
          or_default_def Let_def fl_examples)
qed

section \<open>C7: the time-signature setter\<close>

text \<open>
  For a numerator that is a number other than \<^verbatim>\<open>NaN\<close>, \<^verbatim>\<open>setTimeSignature\<close> does what
  C7 says: a numerator outside the range or a denominator outside the allowed list is
  rejected with nothing changed but the error log, acceptance implies a finite numerator
  in range and an allowed denominator, and an accepted change of signature stores it and
  resets the stored beat and bar to 0.
\<close>

lemma setTimeSignature_validates:
  assumes "n \<noteq> NaN"
  shows "(js_lt n (Fin (minBeatNumerator cfg)) \<or> js_gt n (Fin (maxBeatNumerator cfg)) \<or>
          \<not> js_includes (validDenominators cfg) d \<longrightarrow>
            setTimeSignature cfg (Num n) d w = (False, emit ErrLog w)) \<and>
         (fst (setTimeSignature cfg (Num n) d w) \<longrightarrow>
            (\<exists>r q. n = Fin r \<and> minBeatNumerator cfg \<le> r \<and> r \<le> maxBeatNumerator cfg \<and>
                   d = Num (Fin q) \<and> q \<in> set (validDenominators cfg))) \<and>
         (fst (setTimeSignature cfg (Num n) d w) \<and>
          (st_beatNumerator w \<noteq> n \<or> Num (st_beatDenominator w) \<noteq> d) \<longrightarrow>
            st_beatNumerator (snd (setTimeSignature cfg (Num n) d w)) = n \<and>
            Num (st_beatDenominator (snd (setTimeSignature cfg (Num n) d w))) = d \<and>
            st_currentBeat (snd (setTimeSignature cfg (Num n) d w)) = 0 \<and>
            st_currentBar (snd (setTimeSignature cfg (Num n) d w)) = 0)"
proof (intro conjI impI)
  assume "js_lt n (Fin (minBeatNumerator cfg)) \<or> js_gt n (Fin (maxBeatNumerator cfg)) \<or>
          \<not> js_includes (validDenominators cfg) d"
  then show "setTimeSignature cfg (Num n) d w = (False, emit ErrLog w)"
    by (auto simp: setTimeSignature_def)
next
  assume a: "fst (setTimeSignature cfg (Num n) d w)"
  then have b: "\<not> js_lt n (Fin (minBeatNumerator cfg))" "\<not> js_gt n (Fin (maxBeatNumerator cfg))"
                "js_includes (validDenominators cfg) d"
    by (auto simp: setTimeSignature_def split: if_splits)
  from b(3) obtain q where q: "d = Num (Fin q)" "q \<in> set (validDenominators cfg)"
    by (cases "(validDenominators cfg, d)" rule: js_includes.cases) auto
  from b(1,2) assms obtain r where r: "n = Fin r" "minBeatNumerator cfg \<le> r" "r \<le> maxBeatNumerator cfg"
    by (cases n) (auto simp: js_gt_def)
  from q r show "\<exists>r q. n = Fin r \<and> minBeatNumerator cfg \<le> r \<and> r \<le> maxBeatNumerator cfg \<and>
                   d = Num (Fin q) \<and> q \<in> set (validDenominators cfg)"
    by blast
next
  assume a: "fst (setTimeSignature cfg (Num n) d w) \<and>
             (st_beatNumerator w \<noteq> n \<or> Num (st_beatDenominator w) \<noteq> d)"
  then have b: "\<not> js_lt n (Fin (minBeatNumerator cfg))" "\<not> js_gt n (Fin (maxBeatNumerator cfg))"
                "js_includes (validDenominators cfg) d"
    by (auto simp: setTimeSignature_def split: if_splits)
  from b(3) obtain q where q: "d = Num (Fin q)"
    by (cases "(validDenominators cfg, d)" rule: js_includes.cases) auto
  from b(1,2) assms obtain r where r: "n = Fin r"
    by (cases n) (auto simp: js_gt_def)
  have ne: "(strict_eq (json_of (st_beatNumerator w)) (Num n) \<and>
             strict_eq (json_of (st_beatDenominator w)) (Num (Fin q))) = False"
    using a q r
    by (cases "st_beatNumerator w"; cases "st_beatDenominator w") auto
  let ?r = "setTimeSignature cfg (Num n) d w"
  show "st_beatNumerator (snd ?r) = n" "Num (st_beatDenominator (snd ?r)) = d"
       "st_currentBeat (snd ?r) = 0" "st_currentBar (snd ?r) = 0"
    using b q
    by (simp_all add: setTimeSignature_def ne Let_def updateInterval_def emit_def
          split: option.splits)
qed

text \<open>
  C7 fails on the code for the numerator \<^verbatim>\<open>NaN\<close>, which is a \<^verbatim>\<open>number\<close> and lies in no
  range: both \<^verbatim>\<open>numerator < minNumerator\<close> and \<^verbatim>\<open>numerator > maxNumerator\<close> are false for
  it, so \<^verbatim>\<open>setTimeSignature(NaN, 4)\<close> returns \<^verbatim>\<open>true\<close> and stores \<^verbatim>\<open>NaN\<close> as the numerator.
  The sibling check \<^verbatim>\<open>isValidTimeSignature\<close> of \<^verbatim>\<open>helpers.js\<close>, written with \<^verbatim>\<open>>=\<close> and
  \<^verbatim>\<open><=\<close>, rejects it.
\<close>

theorem C7_nan_numerator_accepted:
  "fst (setTimeSignature CONFIG (Num NaN) (Num (Fin 4)) (world0 0)) = True \<and>
   st_beatNumerator (snd (setTimeSignature CONFIG (Num NaN) (Num (Fin 4)) (world0 0))) = NaN \<and>
   st_beatNumerator (world0 0) = Fin 4"
  by (simp add: setTimeSignature_def CONFIG_def world0_def js_gt_def emit_def Let_def)

section \<open>C6: gain and start time of an emitted sound\<close>

lemma envelope_gain_start:
  "v_gain (envelope ct time volume soundType) = max 0 (min 0.9 volume)"
  "v_start (envelope ct time volume soundType) = max time ct"
  by (simp_all add: envelope_def Let_def)

lemma playSoundInternal_Some:
  assumes "playSoundInternal initialized ctx cfg hasBuffer options = Some v"
  shows "\<exists>c opts. ctx = Some c \<and> options = Some opts \<and>
           v = envelope (currentTime c)
                 (case opt_time opts of None \<Rightarrow> currentTime c | Some t \<Rightarrow> t)
                 (case opt_volume opts of None \<Rightarrow> 1 | Some x \<Rightarrow> x)
                 (chosenSound cfg (opt_first opts))"
proof (cases ctx)
  case None
  with assms show ?thesis by (simp add: playSoundInternal_def)
next
  case (Some c)
  show ?thesis
  proof (cases options)
    case None
    with assms Some show ?thesis by (cases initialized) (simp_all add: playSoundInternal_def)
  next
    case (Some opts)
    with assms \<open>ctx = Some c\<close> show ?thesis
      by (cases initialized; cases "hasBuffer (chosenSound cfg (opt_first opts))")
         (simp_all add: playSoundInternal_def Let_def)
  qed
qed

text \<open>
  C6, as amended. Whenever \<^verbatim>\<open>playSoundInternal\<close> programs a sound, the gain it ramps to
  is the requested volume (1 when absent) clamped to \<open>[0, 0.9]\<close>, and the start time is
  the later of the requested time and the audio clock's current time. The oscillator
  voice of \<^verbatim>\<open>Metronome._playBeat\<close> is programmed differently: its peak gain is half of the
  volume percentage clamped to \<open>[0, 1]\<close>, and it starts at the requested time as given.
\<close>

theorem C6_emitters:
  "(playSoundInternal initialized ctx cfg hasBuffer options = Some v \<longrightarrow>
      (\<exists>c opts. ctx = Some c \<and> options = Some opts \<and>
         v_gain v = max 0 (min 0.9 (case opt_volume opts of None \<Rightarrow> 1 | Some x \<Rightarrow> x)) \<and>
         0 \<le> v_gain v \<and> v_gain v \<le> 0.9 \<and>
         v_start v = max (case opt_time opts of None \<Rightarrow> currentTime c | Some t \<Rightarrow> t) (currentTime c) \<and>
         currentTime c \<le> v_start v)) \<and>
   (Metronome_playBeat ctx' time isAccent volume = Some o' \<longrightarrow>
      (\<exists>x. volume = Some x \<and> o_peak o' = 0.5 * min (max (x / 100) 0) 1 \<and> o_start o' = time))"
proof (intro conjI impI)
  assume a: "playSoundInternal initialized ctx cfg hasBuffer options = Some v"
  from playSoundInternal_Some [OF a] obtain c opts where co: "ctx = Some c" "options = Some opts"
    and v: "v = envelope (currentTime c)
                 (case opt_time opts of None \<Rightarrow> currentTime c | Some t \<Rightarrow> t)
                 (case opt_volume opts of None \<Rightarrow> 1 | Some x \<Rightarrow> x)
                 (chosenSound cfg (opt_first opts))"
    by blast
  have g: "v_gain v = max 0 (min 0.9 (case opt_volume opts of None \<Rightarrow> 1 | Some x \<Rightarrow> x))"
    by (simp add: v envelope_gain_start)
  have t: "v_start v = max (case opt_time opts of None \<Rightarrow> currentTime c | Some t \<Rightarrow> t) (currentTime c)"
    by (simp add: v envelope_gain_start)
  have r: "0 \<le> v_gain v \<and> v_gain v \<le> 0.9 \<and> currentTime c \<le> v_start v"
    by (simp add: g t)
  from co g t r show "\<exists>c opts. ctx = Some c \<and> options = Some opts \<and>
         v_gain v = max 0 (min 0.9 (case opt_volume opts of None \<Rightarrow> 1 | Some x \<Rightarrow> x)) \<and>
         0 \<le> v_gain v \<and> v_gain v \<le> 0.9 \<and>
         v_start v = max (case opt_time opts of None \<Rightarrow> currentTime c | Some t \<Rightarrow> t) (currentTime c) \<and>
         currentTime c \<le> v_start v"
    by blast
next
  assume "Metronome_playBeat ctx' time isAccent volume = Some o'"
  then show "\<exists>x. volume = Some x \<and> o_peak o' = 0.5 * min (max (x / 100) 0) 1 \<and> o_start o' = time"
    by (cases volume; cases ctx') (auto simp: Metronome_playBeat_def Let_def)
qed

lemma late_loud_plays:
  "playSoundInternal True (Some \<lparr>state = Running, currentTime = 1\<rparr>) demo_sounds
          (\<lambda>n. True) (Some late_loud) = Some (envelope 1 0.5 1.5 ''high'')"
  by (simp add: playSoundInternal_def Let_def late_loud_def demo_sounds_def chosenSound_def)

text \<open>
  A first beat requested for 0.5 s at volume 1.5, when the audio clock reads 1 s:
  \<^verbatim>\<open>playSoundInternal\<close> starts it at 1 s with gain 0.9. \<^verbatim>\<open>_playBeat\<close> at volume 70 peaks at
  0.35.
\<close>

theorem C6_emitters_witness:
  "v_gain (envelope 1 0.5 1.5 ''high'') = 0.9 \<and> v_start (envelope 1 0.5 1.5 ''high'') = 1 \<and>
   (\<exists>x. Some (70::real) = Some x \<and>
        o_peak \<lparr>o_peak = 0.35, o_start = 0.5, o_stop = 0.58\<rparr> = 0.5 * min (max (x / 100) 0) 1)"
proof -
  have p: "Metronome_playBeat (Some \<lparr>state = Running, currentTime = 1\<rparr>) 0.5 True (Some 70) =
             Some \<lparr>o_peak = 0.35, o_start = 0.5, o_stop = 0.58\<rparr>"
    by (simp add: Metronome_playBeat_def toneConfig_def Let_def)
  show ?thesis
    using C6_emitters [where initialized = True and ctx = "Some \<lparr>state = Running, currentTime = 1\<rparr>"
            and cfg = demo_sounds and hasBuffer = "\<lambda>n. True" and options = "Some late_loud"
            and v = "envelope 1 0.5 1.5 ''high''"
            and ctx' = "Some \<lparr>state = Running, currentTime = 1\<rparr>" and time = "0.5"
            and isAccent = True and volume = "Some 70"
            and o' = "\<lparr>o_peak = 0.35, o_start = 0.5, o_stop = 0.58\<rparr>"]
          late_loud_plays p
    by (simp add: late_loud_def)
qed

text \<open>
  C6 as stated fails for \<^verbatim>\<open>Metronome._playBeat\<close>: asked at audio time 1 s for a beat at
  0.5 s with volume 70, it starts the oscillator at 0.5 s, in the past, and ramps the
  gain to 0.35, which is the volume clamped to \<open>[0, 0.9]\<close> neither as a percentage nor as
  a fraction.
\<close>

theorem C6_playBeat_counterexample:
  "Metronome_playBeat (Some \<lparr>state = Running, currentTime = 1\<rparr>) 0.5 True (Some 70) =
     Some \<lparr>o_peak = 0.35, o_start = 0.5, o_stop = 0.58\<rparr> \<and>
   (0.5::real) < currentTime \<lparr>state = Running, currentTime = 1\<rparr> \<and>
   (0.35::real) \<noteq> max 0 (min 0.9 70) \<and> (0.35::real) \<noteq> max 0 (min 0.9 (70 / 100))"
  by (simp add: Metronome_playBeat_def toneConfig_def Let_def)


section \<open>C3: the beat numbers of a run\<close>

lemma cyc_snoc:
  assumes "map (fst \<circ> snd) ys = map (\<lambda>k. k mod N + 1) [0..<length ys]"
  shows "map (fst \<circ> snd) (ys @ [(t, length ys mod N + 1, b)]) =
         map (\<lambda>k. k mod N + 1) [0..<length (ys @ [(t, length ys mod N + 1, b)])]"
  using assms by simp

lemma cyc_next: "0 < N \<Longrightarrow> (k mod N + 1) mod N + 1 = Suc k mod N + 1"
  by (metis Suc_eq_plus1 mod_Suc_eq)

lemma dispatchBeat_cyc:
  assumes "cyc_inv N B s" and "isRunning s" and "0 < N"
  shows "cyc_inv N B (snd (dispatchBeat ct bpm N s)) \<and>
         (\<not> fst (dispatchBeat ct bpm N s) \<longrightarrow> isRunning (snd (dispatchBeat ct bpm N s)))"
proof -
  from assms(1,2) obtain ys cb where
    ys: "beats (trace s) = B @ ys" "map (fst \<circ> snd) ys = map (\<lambda>k. k mod N + 1) [0..<length ys]"
    and cb: "schedulerCallback s = Some cb" and cur: "currentBeat s = length ys mod N + 1"
    unfolding cyc_inv_def by auto
  let ?ys = "ys @ [(nextBeatTime s, length ys mod N + 1, bpm)]"
  have m: "map (fst \<circ> snd) ?ys = map (\<lambda>k. k mod N + 1) [0..<length ?ys]"
    using ys(2) by (rule cyc_snoc)
  have n: "(length ys mod N + 1) mod N + 1 = length ?ys mod N + 1"
    using cyc_next [OF assms(3), of "length ys"] by simp
  have b: "beats (trace (snd (dispatchBeat ct bpm N s))) = B @ ?ys"
    using cb ys(1) cur
    by (simp add: dispatchBeat_def beatSucceeded_def beatFailed_def outerCatch_def Let_def
          split: outcome.splits)
  have r: "isRunning (snd (dispatchBeat ct bpm N s)) \<longrightarrow>
             schedulerCallback (snd (dispatchBeat ct bpm N s)) \<noteq> None \<and>
             currentBeat (snd (dispatchBeat ct bpm N s)) = length ?ys mod N + 1"
    using cb cur n
    by (simp add: dispatchBeat_def beatSucceeded_def beatFailed_def outerCatch_def Let_def
          split: outcome.splits)
  have f: "\<not> fst (dispatchBeat ct bpm N s) \<longrightarrow> isRunning (snd (dispatchBeat ct bpm N s))"
    using cb assms(2)
    by (simp add: dispatchBeat_def beatSucceeded_def beatFailed_def outerCatch_def Let_def
          split: outcome.splits)
  have "cyc_inv N B (snd (dispatchBeat ct bpm N s))"
    unfolding cyc_inv_def using b m r by (intro exI [of _ ?ys]) simp
  with f show ?thesis by simp
qed

lemma beatLoop_cyc:
  assumes "cyc_inv N B s" and "isRunning s" and "0 < N"
  shows "cyc_inv N B (snd (beatLoop k ct bpm N s)) \<and>
         (\<not> fst (beatLoop k ct bpm N s) \<longrightarrow> isRunning (snd (beatLoop k ct bpm N s)))"
  using assms
proof (induction k arbitrary: s)
  case 0
  then show ?case by simp
next
  case (Suc k)
  obtain a s1 where d: "dispatchBeat ct bpm N s = (a, s1)" by (cases "dispatchBeat ct bpm N s")
  have d1: "cyc_inv N B s1" "\<not> a \<Longrightarrow> isRunning s1"
    using dispatchBeat_cyc [OF Suc.prems, of ct bpm] d by auto
  show ?case
  proof (cases "nextBeatTime s < ct + scheduleAheadTime")
    case False
    then show ?thesis using Suc.prems by simp
  next
    case True
    show ?thesis
    proof (cases a)
      case True
      then show ?thesis using d d1 \<open>nextBeatTime s < ct + scheduleAheadTime\<close> by simp
    next
      case False
      then show ?thesis
        using d d1 \<open>nextBeatTime s < ct + scheduleAheadTime\<close> Suc.IH [of s1] Suc.prems(3)
        by simp
    qed
  qed
qed

lemma cyc_inv_frame:
  assumes "cyc_inv N B s" and "beats (trace s') = beats (trace s)"
      and "isRunning s' \<longrightarrow> isRunning s \<and> schedulerCallback s' = schedulerCallback s \<and>
           currentBeat s' = currentBeat s"
  shows "cyc_inv N B s'"
  using assms unfolding cyc_inv_def by auto

lemma schedulerLoop_cyc:
  assumes "cyc_inv N B s" and "0 < N"
  shows "cyc_inv N B (schedulerLoop bpm N s)"
proof (cases "isRunning s \<and> \<not> throttled s \<and>
              (\<exists>c. audioContext s = Some c \<and> state c = Running)")
  case False
  have "beats (trace (schedulerLoop bpm N s)) = beats (trace s) \<and>
        (isRunning (schedulerLoop bpm N s) \<longrightarrow> isRunning s \<and>
           schedulerCallback (schedulerLoop bpm N s) = schedulerCallback s \<and>
           currentBeat (schedulerLoop bpm N s) = currentBeat s)"
  proof (cases "audioContext s")
    case None
    then show ?thesis by (simp add: schedulerLoop_def Let_def)
  next
    case (Some c)
    with False show ?thesis
      by (cases "state c") (auto simp: schedulerLoop_def Let_def)
  qed
  with assms(1) show ?thesis by (auto intro: cyc_inv_frame)
next
  case True
  then obtain c where c: "audioContext s = Some c" "state c = Running" by blast
  let ?s1 = "s\<lparr>lastUpdateTime := now s\<rparr>"
  have i1: "cyc_inv N B ?s1" using assms(1) by (rule cyc_inv_frame) simp_all
  obtain a s2 where b: "beatLoop maxSchedulesPerIteration (currentTime c) bpm N ?s1 = (a, s2)"
    by (cases "beatLoop maxSchedulesPerIteration (currentTime c) bpm N ?s1")
  have i2: "cyc_inv N B s2"
    using beatLoop_cyc [OF i1 _ assms(2), of maxSchedulesPerIteration "currentTime c" bpm] True b
    by simp
  have "schedulerLoop bpm N s = s2 \<or> (\<exists>d. schedulerLoop bpm N s = rearm d s2)"
    using True c b by (cases a) (auto simp: schedulerLoop_def Let_def)
  then show ?thesis
  proof
    assume "schedulerLoop bpm N s = s2"
    with i2 show ?thesis by simp
  next
    assume "\<exists>d. schedulerLoop bpm N s = rearm d s2"
    then obtain d where "schedulerLoop bpm N s = rearm d s2" ..
    with i2 show ?thesis by (auto intro: cyc_inv_frame)
  qed
qed

lemma step_cyc:
  assumes "cyc_inv N B s" and "0 < N" and "numerator_is N e"
  shows "cyc_inv N B (step e s)"
proof (cases e)
  case (Tick bpm n)
  with assms show ?thesis by (simp add: numerator_is_def schedulerLoop_cyc)
next
  case (Elapse d)
  with assms(1) show ?thesis by (auto intro: cyc_inv_frame)
next
  case (AudioClock t)
  with assms(1) show ?thesis by (auto intro: cyc_inv_frame split: option.splits)
next
  case (CtxState st)
  with assms(1) show ?thesis by (auto intro: cyc_inv_frame split: option.splits)
next
  case StateChange
  with assms(1) show ?thesis
    by (auto intro!: cyc_inv_frame [OF assms(1)] simp: reset_def Let_def split: option.splits)
next
  case Realign
  with assms(1) show ?thesis
    by (auto intro!: cyc_inv_frame [OF assms(1)] simp: updateInterval_def split: option.splits)
qed

lemma run_cyc:
  assumes "cyc_inv N B s" and "0 < N" and "list_all (numerator_is N) es"
  shows "cyc_inv N B (run es s)"
  using assms by (induction es arbitrary: s) (simp_all add: step_cyc)

lemma start_cyc:
  assumes "\<not> isRunning s"
  shows "cyc_inv N (beats (trace s)) (snd (start (Some cb) late bpm n s))"
proof -
  have "beats (trace (snd (start (Some cb) late bpm n s))) = beats (trace s) @ [] \<and>
        (isRunning (snd (start (Some cb) late bpm n s)) \<longrightarrow>
           schedulerCallback (snd (start (Some cb) late bpm n s)) \<noteq> None \<and>
           currentBeat (snd (start (Some cb) late bpm n s)) = 1)"
  proof (cases "audioContext s")
    case None
    with assms show ?thesis by (simp add: start_def)
  next
    case (Some c)
    with assms show ?thesis
      by (cases "state c")
         (auto simp: start_def schedulerLoop_def Let_def beatLoop_not_due scheduleAheadTime_def)
  qed
  then show ?thesis unfolding cyc_inv_def by (intro exI [of _ "[]"]) simp
qed

text \<open>
  C3. Start a scheduler that is not running, and let anything follow that can follow:
  ticks that all read the numerator \<open>N\<close> (at any tempo), clock movements, state changes
  of the audio context, tempo changes with their re-anchoring. If the \<open>k\<close>-th callback
  invocation since the start happens at all (counting from 0), its beat number is
  \<open>k mod N + 1\<close>: the numbers run 1, 2, ..., N, 1, 2, ... without a gap, throwing
  callbacks included.
\<close>

theorem C3_beat_numbers_cycle:
  assumes "\<not> isRunning s" and "0 < N" and "list_all (numerator_is N) es"
  shows "map (fst \<circ> snd) (dispatched s (run es (snd (start (Some cb) late bpm n s)))) =
         map (\<lambda>k. k mod N + 1)
           [0..<length (dispatched s (run es (snd (start (Some cb) late bpm n s))))]"
proof -
  have "cyc_inv N (beats (trace s)) (run es (snd (start (Some cb) late bpm n s)))"
    using start_cyc [OF assms(1)] assms(2,3) by (rule run_cyc)
  then obtain ys where
    "beats (trace (run es (snd (start (Some cb) late bpm n s)))) = beats (trace s) @ ys"
    "map (fst \<circ> snd) ys = map (\<lambda>k. k mod N + 1) [0..<length ys]"
    unfolding cyc_inv_def by blast
  then show ?thesis by (simp add: dispatched_def)
qed


text \<open>The run \<open>waltz\<close> in 3/4: six beats, the tempo changing after the second.\<close>

theorem C3_beat_numbers_cycle_witness:
  "map (fst \<circ> snd) (dispatched ready0 (run waltz (snd (start (Some always_returns) 0 120 3 ready0)))) =
     [1, 2, 3, 1, 2, 3]"
proof -
  have a: "\<not> isRunning ready0" by (simp add: example_defs sched_defs)
  have b: "list_all (numerator_is 3) waltz" by (simp add: waltz_def numerator_is_def)
  have c: "length (dispatched ready0 (run waltz (snd (start (Some always_returns) 0 120 3 ready0)))) = 6"
    by (simp add: run_defs example_defs sched_defs Let_def beatLoop_unfold)
  have d: "[0..<6] = [0, 1, 2, 3, 4, 5]" by (simp add: upt_rec)
  show ?thesis
    using C3_beat_numbers_cycle [OF a _ b, of always_returns 0 120 3] c d by simp
qed

section \<open>C2: the timestamps of a run\<close>

lemma grid_snoc:
  assumes "grid ys"
      and "ys \<noteq> [] \<Longrightarrow> fst x = fst (last ys) + 60 / snd (snd (last ys)) \<and> fst (last ys) < fst x"
  shows "grid (ys @ [x])"
  using assms
proof (induction ys rule: grid.induct)
  case 1
  then show ?case by simp
next
  case (2 y)
  then show ?case by (cases y; cases x) auto
next
  case (3 t b bpm t' b' bpm' xs)
  then show ?case by auto
qed

lemma grid_inv_frame:
  assumes "grid_inv B s" and "beats (trace s') = beats (trace s)"
      and "isRunning s' \<longrightarrow> isRunning s \<and> schedulerCallback s' = schedulerCallback s \<and>
           nextBeatTime s' = nextBeatTime s"
  shows "grid_inv B s'"
  using assms unfolding grid_inv_def by auto

lemma dispatchBeat_grid:
  assumes "grid_inv B s" and "isRunning s" and "0 < bpm"
  shows "grid_inv B (snd (dispatchBeat ct bpm n s)) \<and>
         (\<not> fst (dispatchBeat ct bpm n s) \<longrightarrow> isRunning (snd (dispatchBeat ct bpm n s)))"
proof -
  from assms(1,2) obtain ys cb where
    ys: "beats (trace s) = B @ ys" "grid ys" "list_all (\<lambda>x. 0 < snd (snd x)) ys"
    and cb: "schedulerCallback s = Some cb"
    and nx: "ys \<noteq> [] \<Longrightarrow> nextBeatTime s = fst (last ys) + 60 / snd (snd (last ys))"
    unfolding grid_inv_def by auto
  let ?x = "(nextBeatTime s, currentBeat s, bpm)"
  let ?ys = "ys @ [?x]"
  have pos: "ys \<noteq> [] \<Longrightarrow> 0 < snd (snd (last ys))"
    using ys(3) by (simp add: list_all_iff)
  have g: "grid ?ys"
  proof (rule grid_snoc [OF ys(2)])
    assume ne: "ys \<noteq> []"
    have "0 < 60 / snd (snd (last ys))" using pos [OF ne] by simp
    then show "fst ?x = fst (last ys) + 60 / snd (snd (last ys)) \<and> fst (last ys) < fst ?x"
      using nx [OF ne] by simp
  qed
  have p: "list_all (\<lambda>x. 0 < snd (snd x)) ?ys" using ys(3) assms(3) by simp
  have b: "beats (trace (snd (dispatchBeat ct bpm n s))) = B @ ?ys"
    using cb ys(1)
    by (simp add: dispatchBeat_def beatSucceeded_def beatFailed_def outerCatch_def Let_def
          split: outcome.splits)
  have r: "isRunning (snd (dispatchBeat ct bpm n s)) \<longrightarrow>
             schedulerCallback (snd (dispatchBeat ct bpm n s)) \<noteq> None \<and>
             nextBeatTime (snd (dispatchBeat ct bpm n s)) = nextBeatTime s + 60 / bpm"
    using cb
    by (simp add: dispatchBeat_def beatSucceeded_def beatFailed_def outerCatch_def Let_def
          split: outcome.splits)
  have f: "\<not> fst (dispatchBeat ct bpm n s) \<longrightarrow> isRunning (snd (dispatchBeat ct bpm n s))"
    using cb assms(2)
    by (simp add: dispatchBeat_def beatSucceeded_def beatFailed_def outerCatch_def Let_def
          split: outcome.splits)
  have "grid_inv B (snd (dispatchBeat ct bpm n s))"
    unfolding grid_inv_def using b g p r by (intro exI [of _ ?ys]) simp
  with f show ?thesis by simp
qed

lemma beatLoop_grid:
  assumes "grid_inv B s" and "isRunning s" and "0 < bpm"
  shows "grid_inv B (snd (beatLoop k ct bpm n s)) \<and>
         (\<not> fst (beatLoop k ct bpm n s) \<longrightarrow> isRunning (snd (beatLoop k ct bpm n s)))"
  using assms
proof (induction k arbitrary: s)
  case 0
  then show ?case by simp
next
  case (Suc k)
  obtain a s1 where d: "dispatchBeat ct bpm n s = (a, s1)" by (cases "dispatchBeat ct bpm n s")
  have d1: "grid_inv B s1" "\<not> a \<Longrightarrow> isRunning s1"
    using dispatchBeat_grid [OF Suc.prems, of ct n] d by auto
  show ?case
  proof (cases "nextBeatTime s < ct + scheduleAheadTime")
    case False
    then show ?thesis using Suc.prems by simp
  next
    case True
    show ?thesis
    proof (cases a)
      case True
      then show ?thesis using d d1 \<open>nextBeatTime s < ct + scheduleAheadTime\<close> by simp
    next
      case False
      then show ?thesis
        using d d1 \<open>nextBeatTime s < ct + scheduleAheadTime\<close> Suc.IH [of s1] Suc.prems(3)
        by simp
    qed
  qed
qed

lemma schedulerLoop_grid:
  assumes "grid_inv B s" and "0 < bpm"
  shows "grid_inv B (schedulerLoop bpm n s)"
proof (cases "isRunning s \<and> \<not> throttled s \<and>
              (\<exists>c. audioContext s = Some c \<and> state c = Running)")
  case False
  have "beats (trace (schedulerLoop bpm n s)) = beats (trace s) \<and>
        (isRunning (schedulerLoop bpm n s) \<longrightarrow> isRunning s \<and>
           schedulerCallback (schedulerLoop bpm n s) = schedulerCallback s \<and>
           nextBeatTime (schedulerLoop bpm n s) = nextBeatTime s)"
  proof (cases "audioContext s")
    case None
    then show ?thesis by (simp add: schedulerLoop_def Let_def)
  next
    case (Some c)
    with False show ?thesis
      by (cases "state c") (auto simp: schedulerLoop_def Let_def)
  qed
  with assms(1) show ?thesis by (auto intro: grid_inv_frame)
next
  case True
  then obtain c where c: "audioContext s = Some c" "state c = Running" by blast
  let ?s1 = "s\<lparr>lastUpdateTime := now s\<rparr>"
  have i1: "grid_inv B ?s1" using assms(1) by (rule grid_inv_frame) simp_all
  obtain a s2 where b: "beatLoop maxSchedulesPerIteration (currentTime c) bpm n ?s1 = (a, s2)"
    by (cases "beatLoop maxSchedulesPerIteration (currentTime c) bpm n ?s1")
  have i2: "grid_inv B s2"
    using beatLoop_grid [OF i1 _ assms(2), of maxSchedulesPerIteration "currentTime c" n] True b
    by simp
  have "schedulerLoop bpm n s = s2 \<or> (\<exists>d. schedulerLoop bpm n s = rearm d s2)"
    using True c b by (cases a) (auto simp: schedulerLoop_def Let_def)
  then show ?thesis
  proof
    assume "schedulerLoop bpm n s = s2"
    with i2 show ?thesis by simp
  next
    assume "\<exists>d. schedulerLoop bpm n s = rearm d s2"
    then obtain d where "schedulerLoop bpm n s = rearm d s2" ..
    with i2 show ?thesis by (auto intro: grid_inv_frame)
  qed
qed

lemma step_grid:
  assumes "grid_inv B s" and "tempo_ok e" and "no_realign e"
  shows "grid_inv B (step e s)"
proof (cases e)
  case (Tick bpm n)
  with assms show ?thesis by (simp add: tempo_ok_def schedulerLoop_grid)
next
  case (Elapse d)
  with assms(1) show ?thesis by (auto intro: grid_inv_frame)
next
  case (AudioClock t)
  with assms(1) show ?thesis by (auto intro: grid_inv_frame split: option.splits)
next
  case (CtxState st)
  with assms(1) show ?thesis by (auto intro: grid_inv_frame split: option.splits)
next
  case StateChange
  with assms(1) show ?thesis
    by (auto intro!: grid_inv_frame [OF assms(1)] simp: reset_def Let_def split: option.splits)
next
  case Realign
  with assms(3) show ?thesis by (simp add: no_realign_def)
qed

lemma run_grid:
  assumes "grid_inv B s" and "list_all tempo_ok es" and "list_all no_realign es"
  shows "grid_inv B (run es s)"
  using assms by (induction es arbitrary: s) (simp_all add: step_grid)

text \<open>
  C2, as amended. From any state of the scheduler on, as long as no setter re-anchors
  the timeline (\<^verbatim>\<open>updateInterval\<close>), the callback invocations form a grid: each
  timestamp is the previous one plus \<open>60 / bpm\<close>, for the tempo read by the tick that
  dispatched the previous beat, and is strictly later. A re-anchoring, which is what a
  tempo change on a running metronome does, dispatches nothing and puts
  \<open>nextBeatTime\<close> 150 ms after the audio clock's current time, whatever the grid was.
\<close>

theorem C2_grid_between_realignments:
  assumes "isRunning s \<longrightarrow> schedulerCallback s \<noteq> None"
      and "list_all tempo_ok es" and "list_all no_realign es"
  shows "grid (dispatched s (run es s)) \<and>
         (audioContext s = Some c \<longrightarrow>
            nextBeatTime (step Realign s) = currentTime c + 0.15 \<and>
            dispatched s (step Realign s) = [])"
proof
  have "grid_inv (beats (trace s)) s"
    unfolding grid_inv_def using assms(1) by (intro exI [of _ "[]"]) simp
  then have "grid_inv (beats (trace s)) (run es s)"
    using assms(2,3) by (rule run_grid)
  then obtain ys where "beats (trace (run es s)) = beats (trace s) @ ys" "grid ys"
    unfolding grid_inv_def by blast
  then show "grid (dispatched s (run es s))" by (simp add: dispatched_def)
  show "audioContext s = Some c \<longrightarrow>
            nextBeatTime (step Realign s) = currentTime c + 0.15 \<and>
            dispatched s (step Realign s) = []"
    by (simp add: updateInterval_def dispatched_def)
qed

text \<open>The run \<open>steady\<close>: five beats, half a second apart until the tick that reads 60 bpm.\<close>

theorem C2_grid_between_realignments_witness:
  "grid (dispatched (started always_returns) (run steady (started always_returns))) \<and>
   dispatched (started always_returns) (run steady (started always_returns)) =
     [(1.2, 1, 120), (1.7, 2, 120), (2.2, 3, 120), (2.7, 4, 60), (3.7, 1, 60)] \<and>
   nextBeatTime (step Realign (started always_returns)) = 1.15"
proof -
  have a: "isRunning (started always_returns) \<longrightarrow> schedulerCallback (started always_returns) \<noteq> None"
    by (simp add: example_defs sched_defs Let_def)
  have b: "list_all tempo_ok steady" "list_all no_realign steady"
    by (simp_all add: steady_def tempo_ok_def no_realign_def)
  have c: "audioContext (started always_returns) = Some \<lparr>state = Running, currentTime = 1\<rparr>"
    by (simp add: example_defs sched_defs Let_def)
  have d: "dispatched (started always_returns) (run steady (started always_returns)) =
     [(1.2, 1, 120), (1.7, 2, 120), (2.2, 3, 120), (2.7, 4, 60), (3.7, 1, 60)]"
    by (simp add: run_defs example_defs sched_defs Let_def beatLoop_unfold)
  show ?thesis
    using C2_grid_between_realignments [OF a b, of "\<lparr>state = Running, currentTime = 1\<rparr>"] c d
    by simp
qed

text \<open>
  C2 as stated fails across a tempo change. In \<open>c2_run\<close> the beat at 1.2 s has been
  dispatched when the tempo change at audio time 1.02 s re-anchors the timeline to
  1.17 s; the next tick dispatches a beat with that timestamp, 30 ms before its
  predecessor and not \<open>60 / 100\<close> s after it.
\<close>

theorem C2_tempo_change_counterexample:
  "map fst (beats (trace c2_run)) = [1.2, 1.17] \<and> \<not> ((1.2::real) < 1.17) \<and>
   (1.17::real) - 1.2 \<noteq> 60 / 100 \<and> (1.17::real) - 1.2 \<noteq> 60 / 120"
  by (simp add: run_defs example_defs sched_defs Let_def beatLoop_unfold)


section \<open>C10: the toggle lock\<close>

lemma world_frame [simp]:
  "toggleLock (stop w) = toggleLock w" "toggleLock (rearm d w) = toggleLock w"
  "toggleLock (emit x w) = toggleLock w"
  "st_isRunning (stop w) = st_isRunning w" "st_isRunning (rearm d w) = st_isRunning w"
  "st_isRunning (emit x w) = st_isRunning w"
  by (simp_all add: stop_def rearm_def emit_def setTimeout_def clearTimeout_def Let_def
        split: option.splits)

lemma unlock_timers_emit [simp]: "unlock_timers (emit x w) = unlock_timers w"
  by (simp add: unlock_timers_def)

lemma unlock_timers_rearm [simp]: "unlock_timers (rearm d w) = unlock_timers w"
  by (simp add: unlock_timers_def)

lemma unlock_timers_clear:
  assumes "i \<notin> t_id ` set (unlock_timers w)"
  shows "unlock_timers (clearTimeout i w) = unlock_timers w"
proof -
  have "filter (\<lambda>t. t_kind t = UnlockTimer) (filter (\<lambda>t. t_id t \<noteq> i) (timers w)) =
        filter (\<lambda>t. t_kind t = UnlockTimer) (timers w)"
    using assms unfolding unlock_timers_def
    by (induction "timers w" arbitrary: w) (auto simp: filter_id_conv image_iff intro: filter_cong)
  then show ?thesis by (simp add: unlock_timers_def clearTimeout_def)
qed

lemma lock_safe_refl: "ids_ok w \<Longrightarrow> lock_safe w w"
  by (simp add: lock_safe_def)

lemma lock_safe_trans: "lock_safe w w' \<Longrightarrow> lock_safe w' w'' \<Longrightarrow> lock_safe w w''"
  by (auto simp: lock_safe_def)

text \<open>A step that leaves the host's timers and the handles alone.\<close>

lemma lock_safe_frame:
  assumes "ids_ok w" and "timers w' = timers w" and "toggleLock w' = toggleLock w"
      and "now w \<le> now w'" and "next_id w' = next_id w"
      and "timerID w' = timerID w" and "recoveryTimeout w' = recoveryTimeout w"
  shows "lock_safe w w'"
proof -
  have u: "unlock_timers w' = unlock_timers w" using assms(2) by (simp add: unlock_timers_def)
  have "handle_ok w' (timerID w')" "handle_ok w' (recoveryTimeout w')"
    using assms(1) by (simp_all add: ids_ok_def handle_ok_def u assms(5,6,7) split: option.splits)
  moreover have "list_all (\<lambda>t. t_id t < next_id w') (timers w')"
    using assms(1) by (simp add: ids_ok_def assms(2,5))
  ultimately show ?thesis
    using assms(3,4,5) u by (simp add: lock_safe_def ids_ok_def)
qed

lemma lock_safe_emit: "ids_ok w \<Longrightarrow> lock_safe w (emit x w)"
  by (rule lock_safe_frame) (simp_all add: emit_def)

lemma lock_safe_rearm:
  assumes "ids_ok w"
  shows "lock_safe w (rearm d w)"
proof -
  have "next_id w \<notin> t_id ` set (unlock_timers w)"
    using assms by (auto simp: ids_ok_def unlock_timers_def list_all_iff)
  then show ?thesis
    using assms
    by (auto simp: lock_safe_def ids_ok_def handle_ok_def list_all_iff split: option.splits)
qed

lemma lock_safe_stop:
  assumes "ids_ok w"
  shows "lock_safe w (stop w)"
proof -
  define w2 where "w2 = (case timerID w of None \<Rightarrow> w\<lparr>isRunning := False\<rparr>
                         | Some i \<Rightarrow> (clearTimeout i (w\<lparr>isRunning := False\<rparr>))\<lparr>timerID := None\<rparr>)"
  define w3 where "w3 = (case recoveryTimeout w2 of None \<Rightarrow> w2
                         | Some i \<Rightarrow> (clearTimeout i w2)\<lparr>recoveryTimeout := None\<rparr>)"
  have s: "stop w = w3\<lparr>schedulerCallback := None, currentBeat := 1, errorCount := 0\<rparr>"
    by (simp add: stop_def Let_def w2_def w3_def split: option.splits)
  have u2: "unlock_timers w2 = unlock_timers w"
  proof (cases "timerID w")
    case None
    then show ?thesis by (simp add: w2_def unlock_timers_def)
  next
    case (Some i)
    then have "i \<notin> t_id ` set (unlock_timers w)"
      using assms by (simp add: ids_ok_def handle_ok_def)
    from unlock_timers_clear [OF this] Some show ?thesis
      by (simp add: w2_def unlock_timers_def clearTimeout_def)
  qed
  have f2: "recoveryTimeout w2 = recoveryTimeout w" "next_id w2 = next_id w" "now w2 = now w"
           "toggleLock w2 = toggleLock w" "set (timers w2) \<subseteq> set (timers w)"
    by (auto simp: w2_def clearTimeout_def split: option.splits)
  have u3: "unlock_timers w3 = unlock_timers w"
  proof (cases "recoveryTimeout w")
    case None
    then show ?thesis using u2 f2(1) by (simp add: w3_def)
  next
    case (Some i)
    then have "i \<notin> t_id ` set (unlock_timers w2)"
      using assms by (simp add: ids_ok_def handle_ok_def u2)
    from unlock_timers_clear [OF this] Some f2(1) u2 show ?thesis
      by (simp add: w3_def unlock_timers_def clearTimeout_def)
  qed
  have f3: "next_id w3 = next_id w" "now w3 = now w" "toggleLock w3 = toggleLock w"
           "set (timers w3) \<subseteq> set (timers w)" "recoveryTimeout w3 = None"
    using f2 by (auto simp: w3_def clearTimeout_def split: option.splits)
  have t2: "timerID w2 = None" by (simp add: w2_def clearTimeout_def split: option.splits)
  have t3: "timerID w3 = None" using t2 by (simp add: w3_def clearTimeout_def split: option.splits)
  have "unlock_timers (stop w) = unlock_timers w"
    using u3 by (simp add: s unlock_timers_def)
  moreover have "list_all (\<lambda>t. t_id t < next_id (stop w)) (timers (stop w))"
    using assms f3 by (auto simp: s ids_ok_def list_all_iff)
  moreover have "timerID (stop w) = None" "recoveryTimeout (stop w) = None"
                "toggleLock (stop w) = toggleLock w" "now (stop w) = now w"
                "next_id (stop w) = next_id w"
    using f3 t3 by (simp_all add: s)
  ultimately show ?thesis
    by (simp add: lock_safe_def ids_ok_def handle_ok_def)
qed


lemma schedulerLoop_first_safe:
  assumes "ids_ok w" and "audioContext w = Some c" and "nextBeatTime w = currentTime c + 0.2"
  shows "lock_safe w (schedulerLoop bpm n w)"
proof -
  let ?w1 = "w\<lparr>lastUpdateTime := now w\<rparr>"
  have i1: "lock_safe w ?w1" using assms(1) by (rule lock_safe_frame) simp_all
  then have o1: "ids_ok ?w1" by (simp add: lock_safe_def)
  have nd: "\<not> nextBeatTime ?w1 < currentTime c + scheduleAheadTime"
    using assms(3) by (simp add: scheduleAheadTime_def)
  have bl: "beatLoop maxSchedulesPerIteration (currentTime c) bpm n ?w1 = (False, ?w1)"
    using nd by (rule beatLoop_not_due)
  show ?thesis
  proof (cases "isRunning w")
    case False
    then show ?thesis using assms(1) by (simp add: schedulerLoop_def lock_safe_refl)
  next
    case run: True
    show ?thesis
    proof (cases "throttled w")
      case True
      then show ?thesis using run assms(1) by (simp add: schedulerLoop_def lock_safe_rearm)
    next
      case nt: False
      show ?thesis
      proof (cases "state c")
        case Closed
        have e1: "lock_safe ?w1 (emit ErrLog ?w1)" using o1 by (rule lock_safe_emit)
        then have "ids_ok (emit ErrLog ?w1)" by (simp add: lock_safe_def)
        then have "lock_safe (emit ErrLog ?w1) (stop (emit ErrLog ?w1))"
          by (rule lock_safe_stop)
        moreover note e1
        moreover have "schedulerLoop bpm n w = stop (emit ErrLog ?w1)"
          using run nt Closed assms(2) by (simp add: schedulerLoop_def Let_def)
        ultimately show ?thesis using i1 by (auto intro: lock_safe_trans)
      next
        case Suspended
        have e1: "lock_safe ?w1 (emit Resume ?w1)" using o1 by (rule lock_safe_emit)
        then have "ids_ok (emit Resume ?w1)" by (simp add: lock_safe_def)
        then have "lock_safe (emit Resume ?w1) (rearm 50 (emit Resume ?w1))"
          by (rule lock_safe_rearm)
        moreover note e1
        moreover have "schedulerLoop bpm n w = rearm 50 (emit Resume ?w1)"
          using run nt Suspended assms(2) by (simp add: schedulerLoop_def Let_def)
        ultimately show ?thesis using i1 by (auto intro: lock_safe_trans)
      next
        case Running
        have "\<exists>d. schedulerLoop bpm n w = rearm d ?w1"
          using run nt Running assms(2) bl by (auto simp: schedulerLoop_def Let_def)
        then obtain d where "schedulerLoop bpm n w = rearm d ?w1" ..
        moreover have "lock_safe ?w1 (rearm d ?w1)" using o1 by (rule lock_safe_rearm)
        ultimately show ?thesis using i1 by (auto intro: lock_safe_trans)
      qed
    qed
  qed
qed

lemma start_safe:
  assumes "ids_ok w"
  shows "lock_safe w (snd (start cb late bpm n w))"
proof (cases "audioContext w")
  case None
  then show ?thesis using assms by (simp add: start_def lock_safe_emit)
next
  case (Some c)
  show ?thesis
  proof (cases "isRunning w")
    case True
    then show ?thesis using assms Some by (simp add: start_def lock_safe_refl)
  next
    case False
    show ?thesis
    proof (cases cb)
      case None
      then show ?thesis using assms Some False by (simp add: start_def lock_safe_emit)
    next
      case f: (Some f)
      let ?w1 = "w\<lparr>schedulerCallback := Some f, isRunning := True,
                      currentBeat := 1, errorCount := 0,
                      performanceStats := (performanceStats w)\<lparr>startTime := Some (now w)\<rparr>,
                      nextBeatTime := currentTime c + 0.2,
                      lastUpdateTime := now w, now := now w + late\<rparr>"
      have i1: "lock_safe w ?w1" using assms by (rule lock_safe_frame) simp_all
      then have o1: "ids_ok ?w1" by (simp add: lock_safe_def)
      have "lock_safe ?w1 (schedulerLoop bpm n ?w1)"
        using o1 by (rule schedulerLoop_first_safe [where c = c]) (simp_all add: Some)
      moreover have "snd (start cb late bpm n w) = schedulerLoop bpm n ?w1"
        using Some False f by (simp add: start_def Let_def)
      ultimately show ?thesis using i1 by (auto intro: lock_safe_trans)
    qed
  qed
qed

lemma startFailed_safe:
  assumes "ids_ok w"
  shows "lock_safe w (snd (startFailed w))"
  using assms by (intro lock_safe_frame) (simp_all add: startFailed_def emit_def)

lemma startMetronome_safe:
  assumes "ids_ok w"
  shows "lock_safe w (snd (startMetronome late w))"
proof -
  let ?w1 = "w\<lparr>totalBeats := 0, lastStartTime := now w, st_isRunning := True\<rparr>"
  have i1: "lock_safe w ?w1" using assms by (rule lock_safe_frame) simp_all
  then have o1: "ids_ok ?w1" by (simp add: lock_safe_def)
  obtain a w2 where st: "start (Some scheduleBeat) late
       (tempo_read (st_bpm ?w1)) (numerator_read (st_beatNumerator ?w1)) ?w1 = (a, w2)"
    by (cases "start (Some scheduleBeat) late
       (tempo_read (st_bpm ?w1)) (numerator_read (st_beatNumerator ?w1)) ?w1")
  have i2: "lock_safe ?w1 w2"
    using start_safe [OF o1, of "Some scheduleBeat" late "tempo_read (st_bpm ?w1)"
            "numerator_read (st_beatNumerator ?w1)"] st by simp
  then have o2: "ids_ok w2" by (simp add: lock_safe_def)
  have i3: "lock_safe w w2" using i1 i2 by (rule lock_safe_trans)
  consider (a) "snd (startMetronome late w) = snd (startFailed w)"
    | (b) "snd (startMetronome late w) = w"
    | (c) "snd (startMetronome late w) = snd (startFailed w2)"
    | (d) "snd (startMetronome late w) = emit (Emit Started) w2"
    using st
    by (cases a; cases "isInitialized w"; cases "isAudioReady w"; cases "st_isRunning w")
       (simp_all add: startMetronome_def Let_def)
  then show ?thesis
  proof cases
    case a
    then show ?thesis using assms by (simp add: startFailed_safe)
  next
    case b
    then show ?thesis using assms by (simp add: lock_safe_refl)
  next
    case c
    then show ?thesis using i3 startFailed_safe [OF o2] by (auto intro: lock_safe_trans)
  next
    case d
    then show ?thesis using i3 lock_safe_emit [OF o2] by (auto intro: lock_safe_trans)
  qed
qed

lemma stopMetronome_safe:
  assumes "ids_ok w"
  shows "lock_safe w (snd (stopMetronome w))"
proof (cases "st_isRunning w")
  case False
  then show ?thesis using assms by (simp add: stopMetronome_def lock_safe_refl)
next
  case True
  define w1 where "w1 = (if lastStartTime w > 0
                  then w\<lparr>totalRuntime := totalRuntime w + (int (now w) - int (lastStartTime w))\<rparr>
                  else w)"
  have i1: "lock_safe w w1" using assms by (intro lock_safe_frame) (simp_all add: w1_def)
  then have o1: "ids_ok w1" by (simp add: lock_safe_def)
  have i2: "lock_safe w1 (stop w1)" using o1 by (rule lock_safe_stop)
  then have o2: "ids_ok (stop w1)" by (simp add: lock_safe_def)
  let ?w3 = "(stop w1)\<lparr>st_isRunning := False, st_currentBeat := 0, st_currentBar := 0\<rparr>"
  have i3: "lock_safe (stop w1) ?w3" using o2 by (rule lock_safe_frame) simp_all
  then have o3: "ids_ok ?w3" by (simp add: lock_safe_def)
  have i4: "lock_safe ?w3 (emit (Emit Stopped) ?w3)" using o3 by (rule lock_safe_emit)
  have "snd (stopMetronome w) = emit (Emit Stopped) ?w3"
    using True by (simp add: stopMetronome_def Let_def w1_def)
  then show ?thesis using i1 i2 i3 i4 by (auto intro: lock_safe_trans)
qed

text \<open>What an accepted toggle leaves behind.\<close>

lemma toggle_accepted:
  assumes "lock_inv w" and "\<not> toggleLock w"
  shows "toggleLock (snd (toggleMetronome late w)) \<and>
         unlock_timers (snd (toggleMetronome late w)) =
           [\<lparr>t_id = next_id w, t_kind = UnlockTimer,
             t_due = real (now w) + TOGGLE_LOCK_DURATION\<rparr>] \<and>
         now w \<le> now (snd (toggleMetronome late w)) \<and>
         ids_ok (snd (toggleMetronome late w))"
proof -
  let ?t = "\<lparr>t_id = next_id w, t_kind = UnlockTimer, t_due = real (now w) + TOGGLE_LOCK_DURATION\<rparr>"
  let ?w1 = "snd (setTimeout UnlockTimer TOGGLE_LOCK_DURATION (w\<lparr>toggleLock := True\<rparr>))"
  have u0: "unlock_timers w = []" and ok: "ids_ok w"
    using assms by (simp_all add: lock_inv_def)
  have u1: "unlock_timers ?w1 = [?t]"
    using u0 by (simp add: setTimeout_def unlock_timers_def)
  have f1: "toggleLock ?w1" "now ?w1 = now w" "next_id ?w1 = Suc (next_id w)"
           "timerID ?w1 = timerID w" "recoveryTimeout ?w1 = recoveryTimeout w"
           "timers ?w1 = timers w @ [?t]"
    by (simp_all add: setTimeout_def)
  have o1: "ids_ok ?w1"
    using ok unfolding ids_ok_def handle_ok_def u1 f1 u0
    by (auto simp: list_all_iff split: option.splits)
  have "lock_safe ?w1 (snd (toggleMetronome late w))"
    using assms(2) stopMetronome_safe [OF o1] startMetronome_safe [OF o1]
    by (simp add: toggleMetronome_def Let_def)
  then show ?thesis using u1 f1 by (simp add: lock_safe_def)
qed

lemma dispatchBeat_now: "now (snd (dispatchBeat ct bpm n s)) = now s"
  by (simp add: dispatchBeat_def beatFailed_def beatSucceeded_def outerCatch_def Let_def
        split: option.splits outcome.splits)

lemma beatLoop_now: "now (snd (beatLoop k ct bpm n s)) = now s"
proof (induction k arbitrary: s)
  case 0
  show ?case by simp
next
  case (Suc k)
  obtain a s1 where d: "dispatchBeat ct bpm n s = (a, s1)" by (cases "dispatchBeat ct bpm n s")
  have "now s1 = now s" using dispatchBeat_now [of ct bpm n s] d by simp
  then show ?case using d Suc.IH [of s1] by (cases a) auto
qed

lemma schedulerLoop_now: "now (schedulerLoop bpm n s) = now s"
proof (cases "audioContext s")
  case None
  then show ?thesis by (simp add: schedulerLoop_def Let_def)
next
  case (Some c)
  obtain a s2 where b: "beatLoop maxSchedulesPerIteration (currentTime c) bpm n
                          (s\<lparr>lastUpdateTime := now s\<rparr>) = (a, s2)"
    by (cases "beatLoop maxSchedulesPerIteration (currentTime c) bpm n (s\<lparr>lastUpdateTime := now s\<rparr>)")
  have "now s2 = now s"
    using beatLoop_now [of maxSchedulesPerIteration "currentTime c" bpm n "s\<lparr>lastUpdateTime := now s\<rparr>"] b
    by simp
  then show ?thesis
    using Some b by (cases a; cases "state c") (simp_all add: schedulerLoop_def Let_def)
qed

lemma start_now: "now s \<le> now (snd (start cb late bpm n s))"
  by (cases cb; cases "audioContext s")
     (simp_all add: start_def Let_def schedulerLoop_now)

lemma startMetronome_now: "now w \<le> now (snd (startMetronome late w))"
proof -
  let ?w1 = "w\<lparr>totalBeats := 0, lastStartTime := now w, st_isRunning := True\<rparr>"
  obtain a w2 where st: "start (Some scheduleBeat) late
       (tempo_read (st_bpm ?w1)) (numerator_read (st_beatNumerator ?w1)) ?w1 = (a, w2)"
    by (cases "start (Some scheduleBeat) late
       (tempo_read (st_bpm ?w1)) (numerator_read (st_beatNumerator ?w1)) ?w1")
  have "now w \<le> now w2"
    using start_now [of ?w1 "Some scheduleBeat" late "tempo_read (st_bpm ?w1)"
            "numerator_read (st_beatNumerator ?w1)"] st by simp
  then show ?thesis
    using st
    by (cases a; cases "isInitialized w"; cases "isAudioReady w"; cases "st_isRunning w")
       (simp_all add: startMetronome_def startFailed_def Let_def)
qed

lemma stopMetronome_now: "now (snd (stopMetronome w)) = now w"
  by (simp add: stopMetronome_def Let_def)

lemma lock_step_now: "now w \<le> now (lock_step e w)"
proof (cases e)
  case (CallToggle late)
  let ?w1 = "snd (setTimeout UnlockTimer TOGGLE_LOCK_DURATION (w\<lparr>toggleLock := True\<rparr>))"
  have n1: "now ?w1 = now w" by (simp add: setTimeout_def)
  have "now w \<le> now (snd (toggleMetronome late w))"
    using startMetronome_now [of ?w1 late] stopMetronome_now [of ?w1] n1
    by (simp add: toggleMetronome_def Let_def)
  with CallToggle show ?thesis by simp
next
  case (Wait d)
  then show ?thesis by simp
next
  case (FireTimer i)
  then show ?thesis by (simp add: clearTimeout_def split: option.splits)
qed

lemma lock_run_now: "now w \<le> now (lock_run es w)"
proof (induction es arbitrary: w)
  case Nil
  show ?case by simp
next
  case (Cons e es)
  have "now w \<le> now (lock_step e w)" by (rule lock_step_now)
  also have "\<dots> \<le> now (lock_run es (lock_step e w))" by (rule Cons.IH)
  finally show ?case by simp
qed

lemma due_timer_mem:
  assumes "due_timer i w = Some t"
  shows "t \<in> set (timers w) \<and> t_id t = i \<and> t_due t \<le> real (now w)"
proof -
  from assms obtain t' where f: "find (\<lambda>t. t_id t = i) (timers w) = Some t'"
    by (auto simp: due_timer_def split: option.splits)
  with assms have "t' = t" "t_due t \<le> real (now w)"
    by (auto simp: due_timer_def split: if_splits)
  moreover from f have "t' \<in> set (timers w) \<and> t_id t' = i"
    by (auto simp: find_Some_iff)
  ultimately show ?thesis by simp
qed

lemma lock_held_step:
  assumes "toggleLock w" and "unlock_timers w = [t]" and "real (now w) < t_due t"
  shows "lock_step e w = w \<or> (\<exists>d. e = Wait d \<and> lock_step e w = w\<lparr>now := now w + d\<rparr>)"
proof (cases e)
  case (CallToggle late)
  then show ?thesis using assms(1) by (simp add: toggleMetronome_def)
next
  case (Wait d)
  then show ?thesis by simp
next
  case (FireTimer i)
  show ?thesis
  proof (cases "due_timer i w")
    case None
    then show ?thesis using FireTimer by simp
  next
    case (Some t')
    from due_timer_mem [OF Some] have m: "t' \<in> set (timers w)" "t_due t' \<le> real (now w)" by auto
    have "t_kind t' \<noteq> UnlockTimer"
    proof
      assume "t_kind t' = UnlockTimer"
      with m(1) have "t' \<in> set (unlock_timers w)" by (simp add: unlock_timers_def)
      with assms(2) have "t' = t" by simp
      with m(2) assms(3) show False by simp
    qed
    then show ?thesis using FireTimer Some by simp
  qed
qed

lemma lock_held_run:
  assumes "toggleLock w" and "unlock_timers w = [t]"
      and "real (now (lock_run es w)) < t_due t"
  shows "toggleLock (lock_run es w)"
  using assms
proof (induction es arbitrary: w)
  case Nil
  then show ?case by simp
next
  case (Cons e es)
  have n: "real (now (lock_step e w)) < t_due t"
    using lock_run_now [of "lock_step e w" es] Cons.prems(3) by simp
  have n0: "real (now w) < t_due t"
    using lock_step_now [of w e] n by simp
  from lock_held_step [OF Cons.prems(1,2) n0, of e]
  have "toggleLock (lock_step e w) \<and> unlock_timers (lock_step e w) = [t]"
    using Cons.prems(1,2) by (auto simp: unlock_timers_def)
  then show ?case using Cons.IH [of "lock_step e w"] Cons.prems(3) by simp
qed

text \<open>
  The lock invariant is an invariant: it holds when the module is loaded and every event
  of the lock's life preserves it.
\<close>

lemma lock_inv_step:
  assumes "lock_inv w"
  shows "lock_inv (lock_step e w)"
proof (cases e)
  case (CallToggle late)
  show ?thesis
  proof (cases "toggleLock w")
    case True
    then show ?thesis using CallToggle assms by (simp add: toggleMetronome_def)
  next
    case False
    from toggle_accepted [OF assms False, of late] show ?thesis
      using CallToggle by (simp add: lock_inv_def)
  qed
next
  case (Wait d)
  have "lock_safe w (w\<lparr>now := now w + d\<rparr>)"
    using assms by (intro lock_safe_frame) (simp_all add: lock_inv_def)
  then show ?thesis using Wait assms by (simp add: lock_inv_def lock_safe_def)
next
  case (FireTimer i)
  show ?thesis
  proof (cases "due_timer i w")
    case None
    then show ?thesis using FireTimer assms by simp
  next
    case (Some t)
    show ?thesis
    proof (cases "t_kind t = UnlockTimer")
      case False
      then show ?thesis using FireTimer Some assms by simp
    next
      case True
      let ?w' = "(clearTimeout i w)\<lparr>toggleLock := False\<rparr>"
      from due_timer_mem [OF Some] have m: "t \<in> set (timers w)" "t_id t = i" by auto
      with True have tu: "t \<in> set (unlock_timers w)" by (simp add: unlock_timers_def)
      then have "unlock_timers w \<noteq> []" by auto
      then have "length (unlock_timers w) = 1"
        using assms by (auto simp: lock_inv_def split: if_splits)
      then have single: "unlock_timers w = [t]"
        using tu by (cases "unlock_timers w") auto
      have u: "unlock_timers ?w' = filter (\<lambda>x. t_id x \<noteq> i) (unlock_timers w)"
        by (simp add: unlock_timers_def clearTimeout_def conj_commute)
      have u': "unlock_timers ?w' = []" using single m(2) by (simp add: u)
      have ok: "ids_ok w" using assms by (simp add: lock_inv_def)
      have "ids_ok ?w'"
        using ok unfolding ids_ok_def handle_ok_def u'
        by (auto simp: clearTimeout_def list_all_iff split: option.splits)
      then show ?thesis using FireTimer Some True u' by (simp add: lock_inv_def)
    qed
  qed
qed

lemma lock_inv_run: "lock_inv w \<Longrightarrow> lock_inv (lock_run es w)"
  by (induction es arbitrary: w) (simp_all add: lock_inv_step)

lemma lock_inv_world0: "lock_inv (world0 t)"
  by (simp add: lock_inv_def ids_ok_def handle_ok_def unlock_timers_def world0_def)

lemma lock_inv_world1: "lock_inv world1"
  by (simp add: lock_inv_def ids_ok_def handle_ok_def unlock_timers_def world0_def world1_def)

lemma world1_toggled:
  "fst (toggleMetronome 0 world1) \<and> st_isRunning (snd (toggleMetronome 0 world1)) \<and>
   isRunning (snd (toggleMetronome 0 world1)) \<and> toggleLock (snd (toggleMetronome 0 world1)) \<and>
   now (snd (toggleMetronome 0 world1)) = 1000"
  by (simp add: toggleMetronome_def startMetronome_def isAudioReady_def world1_def world0_def
        TOGGLE_LOCK_DURATION_def scheduleBeat_def tempo_read_def numerator_read_def
        sched_defs Let_def)

text \<open>
  C10. Take any state that satisfies the lock invariant, with the lock free, and call
  \<^verbatim>\<open>toggleMetronome\<close>: the call is not rejected by the lock. Whatever follows (further
  toggle calls, waiting, unlock timers running when due), as long as the wall clock reads
  less than 300 ms more than at that call, a call of \<^verbatim>\<open>toggleMetronome\<close> returns
  \<^verbatim>\<open>false\<close> and changes nothing, the running state included.
\<close>

theorem C10_toggle_debounce:
  assumes "lock_inv w" and "\<not> toggleLock w"
      and "real (now (lock_run es (snd (toggleMetronome late w)))) <
           real (now w) + TOGGLE_LOCK_DURATION"
  shows "toggleMetronome late' (lock_run es (snd (toggleMetronome late w))) =
           (False, lock_run es (snd (toggleMetronome late w)))"
proof -
  let ?w1 = "snd (toggleMetronome late w)"
  let ?t = "\<lparr>t_id = next_id w, t_kind = UnlockTimer, t_due = real (now w) + TOGGLE_LOCK_DURATION\<rparr>"
  from toggle_accepted [OF assms(1,2), of late]
  have a: "toggleLock ?w1" "unlock_timers ?w1 = [?t]" by simp_all
  have "toggleLock (lock_run es ?w1)"
    using a assms(3) by (intro lock_held_run [where t = ?t]) simp_all
  then show ?thesis by (simp add: toggleMetronome_def)
qed


text \<open>
  An initialised metronome at rest is toggled on at 1000 ms. A toggle 100 ms later is
  refused, and so is one at 1299 ms: the metronome is still running.
\<close>

theorem C10_toggle_debounce_witness:
  "toggleMetronome 0 (lock_run busy (snd (toggleMetronome 0 world1))) =
     (False, lock_run busy (snd (toggleMetronome 0 world1))) \<and>
   now (lock_run busy (snd (toggleMetronome 0 world1))) = 1299 \<and>
   st_isRunning (lock_run busy (snd (toggleMetronome 0 world1)))"
proof -
  have a: "\<not> toggleLock world1" "now world1 = 1000"
    by (simp_all add: world1_def world0_def)
  have r: "lock_run busy (snd (toggleMetronome 0 world1)) =
           (snd (toggleMetronome 0 world1))\<lparr>now := 1299\<rparr>"
    using world1_toggled by (simp add: busy_def toggleMetronome_def)
  have b: "real (now (lock_run busy (snd (toggleMetronome 0 world1)))) <
           real (now world1) + TOGGLE_LOCK_DURATION"
    by (simp add: r a TOGGLE_LOCK_DURATION_def)
  show ?thesis
    using C10_toggle_debounce [OF lock_inv_world1 a(1) b, of 0] world1_toggled
    by (simp add: r)
qed

end
